theory Spec2Isabelle
  imports Complex_Main
begin

section \<open>Strings, exceptions and prices\<close>

text \<open>
  A Python \<^verbatim>\<open>str\<close> is a sequence of Unicode code points, so it is modelled as a list
  of integers; \<open>u\<close> turns an ASCII literal into such a string.
\<close>

type_synonym ustring = "int list"

definition u :: "string \<Rightarrow> ustring" where
  "u s = map of_char s"

text \<open>The exceptions that the modelled code raises or catches.\<close>

datatype exn = ValueError | RuntimeError | ZeroDivisionError | IndexError
  | UnicodeError | UnicodeEncodeError | Timeout | RequestException | OtherException

text \<open>
  Prices are Python floats. A finite float is the rational number it denotes, and the
  comparisons of the code are the comparisons of these rationals; the rounding of
  subtraction and of division is not modelled. The floats of the aggregation have the
  type \<open>price\<close>, whose value \<open>PInf\<close> is \<^verbatim>\<open>float('inf')\<close>: it is the value of the
  field \<^verbatim>\<open>preco_valor\<close> for a site without an offer, and it is also the price of a
  scraped product whose text is a numeral beyond the range of the doubles, such as one
  of 309 digits, for which \<^verbatim>\<open>float\<close> gives \<^verbatim>\<open>inf\<close>. \<^verbatim>\<open>float\<close> gives no NaN and no
  negative infinity for the texts that the scrapers pass to it.
\<close>

datatype price = Fin rat | PInf

instantiation price :: linorder
begin

fun less_eq_price :: "price \<Rightarrow> price \<Rightarrow> bool" where
  "less_eq_price (Fin a) (Fin b) = (a \<le> b)"
| "less_eq_price (Fin a) PInf = True"
| "less_eq_price PInf (Fin b) = False"
| "less_eq_price PInf PInf = True"

definition less_price :: "price \<Rightarrow> price \<Rightarrow> bool" where
  "less_price x y = (x \<le> y \<and> \<not> y \<le> x)"

instance
proof
  fix x y z :: price
  show "(x < y) = (x \<le> y \<and> \<not> y \<le> x)"
    by (simp add: less_price_def)
  show "x \<le> x"
    by (cases x) simp_all
  show "x \<le> y \<Longrightarrow> y \<le> z \<Longrightarrow> x \<le> z"
    by (cases x; cases y; cases z) simp_all
  show "x \<le> y \<Longrightarrow> y \<le> x \<Longrightarrow> x = y"
    by (cases x; cases y) simp_all
  show "x \<le> y \<or> y \<le> x"
    by (cases x; cases y) auto
qed

end

section \<open>shopping\_api.py: the aggregation of the scraped products\<close>

text \<open>
  A scraped product is the dictionary with the keys \<^verbatim>\<open>nome\<close>, \<^verbatim>\<open>preco\<close>,
  \<^verbatim>\<open>link\<close> and \<^verbatim>\<open>site\<close> that the scrapers build; \<^verbatim>\<open>_find_best_deals\<close> adds
  the key \<^verbatim>\<open>cart_link\<close> to the products it selects. The outer \<open>option\<close> of
  \<open>cart_link\<close> says whether the key is there, the inner one whether its value is
  \<^verbatim>\<open>None\<close>. The type of the price is a parameter: the products that the
  aggregation receives from \<^verbatim>\<open>ProductScraper\<close> carry a \<open>price\<close>, the ones that
  \<^verbatim>\<open>ServerScraper\<close> extracts carry the rational that \<open>py_float\<close> below reads.
\<close>

record 'p product =
  nome :: ustring
  preco :: 'p
  link :: "ustring option"
  site :: ustring
  cart_link :: "ustring option option"

text \<open>
  \<^verbatim>\<open>min(xs, key=k)\<close> on a list that is not empty: the scan keeps the item it holds
  unless a later one has a strictly smaller key, so of several minimal items the first
  one is returned. \<open>min_from k x xs\<close> is the scan of \<open>x # xs\<close>.
\<close>

fun min_from :: "('a \<Rightarrow> 'k::linorder) \<Rightarrow> 'a \<Rightarrow> 'a list \<Rightarrow> 'a" where
  "min_from k best [] = best"
| "min_from k best (x # xs) = min_from k (if k x < k best then x else best) xs"

text \<open>\<^verbatim>\<open>ProductScraper.get_cart_link\<close>: every branch returns the product link.\<close>

definition get_cart_link :: "ustring option \<Rightarrow> ustring \<Rightarrow> ustring option" where
  "get_cart_link product_url st =
     (if product_url = None \<or> product_url = Some [] then None
      else if st = u ''Mercado Livre'' then product_url
      else if st = u ''Kabum'' then product_url
      else if st = u ''Google Shopping'' then product_url
      else product_url)"

definition sites :: "ustring list" where
  "sites = [u ''Google Shopping'', u ''Mercado Livre'', u ''Kabum'']"

definition melhor_oferta :: ustring where
  "melhor_oferta = u ''Melhor Oferta''"

text \<open>
  \<^verbatim>\<open>ShoppingAPI._find_best_deals\<close>. The dictionary \<^verbatim>\<open>best_deals\<close> has the four keys
  from its creation on, each with the value \<^verbatim>\<open>None\<close> or a product; it is the map that
  gives \<open>None\<close> for the value \<^verbatim>\<open>None\<close>.
\<close>

definition site_step :: "price product list \<Rightarrow> ustring \<Rightarrow> (ustring \<rightharpoonup> price product) \<Rightarrow>
    (ustring \<rightharpoonup> price product)" where
  "site_step results st best_deals =
     (case filter (\<lambda>r. site r = st) results of
        [] \<Rightarrow> best_deals
      | r # rs \<Rightarrow>
          (let best_deal = min_from preco r rs;
               cart = get_cart_link (link best_deal) st
           in best_deals(st \<mapsto> best_deal\<lparr>cart_link := Some cart\<rparr>)))"

definition find_best_deals :: "price product list \<Rightarrow> (ustring \<rightharpoonup> price product)" where
  "find_best_deals results =
     (let best_deals = fold (site_step results) sites Map.empty;
          valid_deals = List.map_filter best_deals sites
      in case valid_deals of
           [] \<Rightarrow> best_deals
         | d # ds \<Rightarrow> best_deals(melhor_oferta \<mapsto> min_from preco d ds))"

text \<open>
  The formatted result. \<open>Reais p\<close> stands for the text
  \<^verbatim>\<open>f"R$ {p:.2f}".replace('.', ',')\<close> and \<open>Economia s p\<close> for
  \<^verbatim>\<open>f"Economia de R$ {s:.2f} ({p:.1f}%)".replace('.', ',')\<close>: the formatting of a
  float is not interpreted. \<open>NA\<close> is the text \<^verbatim>\<open>N/A\<close> and \<open>UnicoPreco\<close> the text
  that says that a single price is available.
\<close>

datatype price_text = NA | Reais price

datatype savings = UnicoPreco | Economia rat rat

record site_info =
  si_nome :: ustring
  si_preco :: price_text
  preco_valor :: price
  si_link :: "ustring option"
  si_cart_link :: "ustring option"

record best_info =
  bo_site :: ustring
  bo_nome :: ustring
  bo_preco :: price_text
  bo_preco_valor :: price
  economia :: savings
  bo_link :: "ustring option"
  bo_cart_link :: "ustring option"

record search_output =
  out_query :: ustring
  out_timestamp :: ustring
  out_results :: "(ustring \<times> site_info) list"
  best_overall :: "best_info option"

text \<open>
  \<^verbatim>\<open>ShoppingAPI._calculate_savings\<close>. The list \<^verbatim>\<open>prices\<close> keeps the values that are
  not \<^verbatim>\<open>float('inf')\<close> and are above \<^verbatim>\<open>best_price\<close>; they are finite, and so is
  \<^verbatim>\<open>best_price\<close> when there is one of them; no float is above \<^verbatim>\<open>inf\<close>, so the list
  is empty when \<^verbatim>\<open>best_price\<close> is \<^verbatim>\<open>inf\<close>. The division raises
  \<^verbatim>\<open>ZeroDivisionError\<close> when the second best price is zero.
\<close>

definition calculate_savings :: "price \<Rightarrow> (ustring \<times> site_info) list \<Rightarrow> exn + savings" where
  "calculate_savings best_price results =
     (case best_price of
        PInf \<Rightarrow> Inr UnicoPreco
      | Fin best \<Rightarrow>
         (let prices = List.map_filter
                (\<lambda>(st, info). case preco_valor info of
                     PInf \<Rightarrow> None
                   | Fin p \<Rightarrow> if p > best then Some p else None) results
          in case prices of
               [] \<Rightarrow> Inr UnicoPreco
             | p # ps \<Rightarrow>
                (let second_best = min_from id p ps;
                     savings = second_best - best
                 in if second_best = 0 then Inl ZeroDivisionError
                    else Inr (Economia savings ((savings / second_best) * 100)))))"

definition no_offer :: site_info where
  "no_offer = \<lparr>si_nome = u ''Nenhum produto encontrado'', si_preco = NA,
       preco_valor = PInf, si_link = None, si_cart_link = None\<rparr>"

definition deal_cart_link :: "price product \<Rightarrow> ustring option" where
  "deal_cart_link deal = (case cart_link deal of None \<Rightarrow> link deal | Some c \<Rightarrow> c)"

definition site_entry :: "(ustring \<rightharpoonup> price product) \<Rightarrow> ustring \<Rightarrow> ustring \<times> site_info" where
  "site_entry best_deals st =
     (case best_deals st of
        Some deal \<Rightarrow>
          (st, \<lparr>si_nome = nome deal, si_preco = Reais (preco deal),
                preco_valor = preco deal, si_link = link deal,
                si_cart_link = deal_cart_link deal\<rparr>)
      | None \<Rightarrow> (st, no_offer))"

text \<open>
  \<^verbatim>\<open>ShoppingAPI._format_results\<close>; the text of \<^verbatim>\<open>datetime.now()\<close> is the
  argument \<open>ts\<close>.
\<close>

definition format_results :: "(ustring \<rightharpoonup> price product) \<Rightarrow> ustring \<Rightarrow> ustring \<Rightarrow>
    exn + search_output" where
  "format_results best_deals qry ts =
     (let results = map (site_entry best_deals) sites
      in case best_deals melhor_oferta of
           None \<Rightarrow>
             Inr \<lparr>out_query = qry, out_timestamp = ts, out_results = results,
                  best_overall = None\<rparr>
         | Some best \<Rightarrow>
            (case calculate_savings (preco best) results of
               Inl e \<Rightarrow> Inl e
             | Inr sv \<Rightarrow>
                 Inr \<lparr>out_query = qry, out_timestamp = ts, out_results = results,
                      best_overall = Some \<lparr>bo_site = site best, bo_nome = nome best,
                        bo_preco = Reais (preco best), bo_preco_valor = preco best,
                        economia = sv, bo_link = link best,
                        bo_cart_link = deal_cart_link best\<rparr>\<rparr>))"

text \<open>
  Notions for the statements. \<open>first_min k xs x\<close>: \<open>x\<close> is the first item of
  \<open>xs\<close> whose key is minimal. \<open>site_best\<close> is the deal that the loop over the sites
  leaves for a site.
\<close>

definition first_min :: "('a \<Rightarrow> 'k::linorder) \<Rightarrow> 'a list \<Rightarrow> 'a \<Rightarrow> bool" where
  "first_min k xs x \<longleftrightarrow>
     (\<exists>pre post. xs = pre @ x # post \<and> (\<forall>y\<in>set pre. k x < k y) \<and> (\<forall>y\<in>set post. k x \<le> k y))"

definition site_best :: "price product list \<Rightarrow> ustring \<Rightarrow> price product option" where
  "site_best results st =
     (case filter (\<lambda>r. site r = st) results of
        [] \<Rightarrow> None
      | r # rs \<Rightarrow>
          Some ((min_from preco r rs)
                  \<lparr>cart_link := Some (get_cart_link (link (min_from preco r rs)) st)\<rparr>))"

text \<open>
  Scraped products for the examples: one of Google Shopping and two of Mercado Livre;
  two products of the same price on two sites; and a product at 80 with one whose
  price is \<^verbatim>\<open>inf\<close>.
\<close>

definition ex_results :: "price product list" where
  "ex_results =
     [\<lparr>nome = u ''tv a'', preco = Fin 100, link = Some (u ''https://a.example/1''),
        site = u ''Google Shopping'', cart_link = None\<rparr>,
      \<lparr>nome = u ''tv b'', preco = Fin 95, link = Some (u ''https://b.example/1''),
        site = u ''Mercado Livre'', cart_link = None\<rparr>,
      \<lparr>nome = u ''tv c'', preco = Fin 80, link = Some (u ''https://b.example/2''),
        site = u ''Mercado Livre'', cart_link = None\<rparr>]"

text \<open>The best prices of the sites that are strictly above a price, in the order of the sites.\<close>

definition higher_prices :: "price product list \<Rightarrow> price \<Rightarrow> price list" where
  "higher_prices results best =
     [preco d. d \<leftarrow> List.map_filter (find_best_deals results) sites, best < preco d]"

text \<open>The finite ones among them that are above a finite price, as rationals.\<close>

definition finite_above :: "price product list \<Rightarrow> rat \<Rightarrow> rat list" where
  "finite_above results best =
     List.map_filter (\<lambda>d. case preco d of PInf \<Rightarrow> None | Fin p \<Rightarrow> if best < p then Some p else None)
       (List.map_filter (find_best_deals results) sites)"

definition tie_results :: "price product list" where
  "tie_results =
     [\<lparr>nome = u ''tv a'', preco = Fin 80, link = Some (u ''https://a.example/1''),
        site = u ''Google Shopping'', cart_link = None\<rparr>,
      \<lparr>nome = u ''tv b'', preco = Fin 80, link = Some (u ''https://b.example/1''),
        site = u ''Mercado Livre'', cart_link = None\<rparr>]"

definition inf_results :: "price product list" where
  "inf_results =
     [\<lparr>nome = u ''tv a'', preco = Fin 80, link = Some (u ''https://a.example/1''),
        site = u ''Google Shopping'', cart_link = None\<rparr>,
      \<lparr>nome = u ''tv b'', preco = PInf, link = Some (u ''https://b.example/1''),
        site = u ''Mercado Livre'', cart_link = None\<rparr>]"

section \<open>The price normalizers\<close>

text \<open>
  White space is what \<^verbatim>\<open>str.strip()\<close> removes and what \<^verbatim>\<open>\s\<close> matches in a pattern
  on \<^verbatim>\<open>str\<close>. A digit is a decimal digit of any script, which is what \<^verbatim>\<open>\d\<close> matches in
  a pattern on \<^verbatim>\<open>str\<close> and what \<^verbatim>\<open>float\<close> reads: the characters of the category
  \<^verbatim>\<open>Nd\<close>, which are sixty-six runs of the ten digits from zero to nine in the Unicode
  14.0 of Python 3.11. \<open>digit_zeros\<close> has the zero of each run, beginning with the
  ASCII one, and \<open>digit_value\<close> is the digit that a character stands for.
\<close>

definition digit_zeros :: "int list" where
  "digit_zeros =
     [48, 1632, 1776, 1984, 2406, 2534, 2662, 2790, 2918, 3046, 3174, 3302, 3430, 3558,
      3664, 3792, 3872, 4160, 4240, 6112, 6160, 6470, 6608, 6784, 6800, 6992, 7088, 7232,
      7248, 42528, 43216, 43264, 43472, 43504, 43600, 44016, 65296, 66720, 68912, 69734,
      69872, 69942, 70096, 70384, 70736, 70864, 71248, 71360, 71472, 71904, 72016, 72784,
      73040, 73120, 92768, 92864, 93008, 120782, 120792, 120802, 120812, 120822, 123200,
      123632, 125264, 130032]"

definition is_space :: "int \<Rightarrow> bool" where
  "is_space c \<longleftrightarrow>
     (9 \<le> c \<and> c \<le> 13) \<or> (28 \<le> c \<and> c \<le> 32) \<or> c = 133 \<or> c = 160 \<or> c = 5760 \<or>
     (8192 \<le> c \<and> c \<le> 8202) \<or> c = 8232 \<or> c = 8233 \<or> c = 8239 \<or> c = 8287 \<or> c = 12288"

definition is_digit :: "int \<Rightarrow> bool" where
  "is_digit c \<longleftrightarrow> (\<exists>z\<in>set digit_zeros. z \<le> c \<and> c \<le> z + 9)"

definition digit_value :: "int \<Rightarrow> int" where
  "digit_value c =
     (case find (\<lambda>z. z \<le> c \<and> c \<le> z + 9) digit_zeros of Some z \<Rightarrow> c - z | None \<Rightarrow> 0)"

definition py_strip :: "ustring \<Rightarrow> ustring" where
  "py_strip s = rev (dropWhile is_space (rev (dropWhile is_space s)))"

text \<open>
  \<^verbatim>\<open>re.sub(r"(R\$|\$|\<euro>|\<pounds>)\s*", "", s)\<close>: the matches are found from left to right; a
  match is one of the currency signs (\<open>R\<close> is 82, \<open>$\<close> 36, the euro sign 8364
  and the pound sign 163) and all the white space after it.
\<close>

function strip_currency :: "ustring \<Rightarrow> ustring" where
  "strip_currency [] = []"
| "strip_currency (c # cs) =
     (if c = 82 \<and> cs \<noteq> [] \<and> hd cs = 36 then strip_currency (dropWhile is_space (tl cs))
      else if c = 36 \<or> c = 8364 \<or> c = 163 then strip_currency (dropWhile is_space cs)
      else c # strip_currency cs)"
  by pat_completeness auto

termination
proof (relation "measure length")
  show "wf (measure length)" by simp
next
  fix c :: int and cs :: ustring
  assume "c = 82 \<and> cs \<noteq> [] \<and> hd cs = 36"
  then show "(dropWhile is_space (tl cs), c # cs) \<in> measure length"
    using length_dropWhile_le[of is_space "tl cs"] by simp
next
  fix c :: int and cs :: ustring
  show "(dropWhile is_space cs, c # cs) \<in> measure length"
    using length_dropWhile_le[of is_space cs] by simp
next
  fix c :: int and cs :: ustring
  show "(cs, c # cs) \<in> measure length" by simp
qed

text \<open>
  A letter of a pattern compiled with \<^verbatim>\<open>re.IGNORECASE\<close> matches the characters whose
  lower case it is, and \<open>i\<close> and \<open>s\<close> match the dotless i (305) and the long s (383)
  too; the capital I with a dot (304) has the lower case \<open>i\<close>. The letters of the three
  phrases are ASCII letters and the a with a grave accent (224), whose capitals are 32
  below them.
\<close>

definition ci_match :: "int \<Rightarrow> int \<Rightarrow> bool" where
  "ci_match p c \<longleftrightarrow>
     c = p \<or> (((97 \<le> p \<and> p \<le> 122) \<or> p = 224) \<and> c + 32 = p) \<or>
     (p = 105 \<and> (c = 304 \<or> c = 305)) \<or> (p = 115 \<and> c = 383)"

fun starts_with_ci :: "ustring \<Rightarrow> ustring \<Rightarrow> bool" where
  "starts_with_ci [] s = True"
| "starts_with_ci (p # ps) [] = False"
| "starts_with_ci (p # ps) (c # cs) = (ci_match p c \<and> starts_with_ci ps cs)"

definition qualifiers :: "ustring list" where
  "qualifiers = [u ''a partir de'', 224 # u '' vista'', u ''no pix'']"

text \<open>
  \<^verbatim>\<open>re.split(r"\s+(a partir de|a vista|no pix)", s, flags=re.IGNORECASE)[0]\<close>, where
  the first letter of the second phrase has a grave accent in the source: the text
  before the first match, all of it when nothing matches. No phrase starts with white
  space, so a match starts at a white space character exactly when a phrase follows
  the run of white space that starts there.
\<close>

fun cut_qualifier :: "ustring \<Rightarrow> ustring" where
  "cut_qualifier [] = []"
| "cut_qualifier (c # cs) =
     (if is_space c \<and> (\<exists>q\<in>set qualifiers. starts_with_ci q (dropWhile is_space cs)) then []
      else c # cut_qualifier cs)"

text \<open>\<^verbatim>\<open>s.rfind(c)\<close> for a single character: the last index of \<open>c\<close>, or \<open>-1\<close>.\<close>

definition rfind :: "ustring \<Rightarrow> int \<Rightarrow> int" where
  "rfind s c =
     (if c \<in> set s then int (length s) - 1 - int (length (takeWhile (\<lambda>x. x \<noteq> c) (rev s)))
      else - 1)"

text \<open>
  \<^verbatim>\<open>float(s)\<close> for the texts that reach it, which have digits and periods only: a
  numeral has at most one period and at least one digit, anything else raises
  \<^verbatim>\<open>ValueError\<close>, which is \<open>None\<close> here. The value is the decimal number written:
  \<^verbatim>\<open>float\<close> rounds it to the nearest double, and gives \<^verbatim>\<open>inf\<close> beyond the range of
  the doubles and \<^verbatim>\<open>0.0\<close> below it, which is not modelled in the normalizers.
\<close>

definition digits_val :: "ustring \<Rightarrow> int" where
  "digits_val s = foldl (\<lambda>a c. 10 * a + digit_value c) 0 s"

definition py_float :: "ustring \<Rightarrow> rat option" where
  "py_float s =
     (let ip = takeWhile (\<lambda>c. c \<noteq> 46) s; fp = drop 1 (dropWhile (\<lambda>c. c \<noteq> 46) s)
      in if (\<forall>c\<in>set ip. is_digit c) \<and> (\<forall>c\<in>set fp. is_digit c) \<and> ip @ fp \<noteq> []
         then Some (of_int (digits_val ip) + of_int (digits_val fp) / 10 ^ length fp)
         else None)"

text \<open>
  The choice of the decimal separator in \<^verbatim>\<open>ServerScraper._format_price\<close> (44 is the
  comma, 46 the period).
\<close>

definition decimal_separator :: "ustring \<Rightarrow> ustring" where
  "decimal_separator price_str =
     (let last_comma = rfind price_str 44; last_dot = rfind price_str 46
      in if last_comma > last_dot
         then map (\<lambda>c. if c = 44 then 46 else c) (filter (\<lambda>c. c \<noteq> 46) price_str)
         else if last_dot > last_comma then filter (\<lambda>c. c \<noteq> 44) price_str
         else filter (\<lambda>c. c \<noteq> 44) price_str)"

text \<open>
  \<^verbatim>\<open>ServerScraper._format_price\<close> on a \<^verbatim>\<open>str\<close>; every exception raised inside is
  caught and gives \<^verbatim>\<open>None\<close>.
\<close>

definition server_format_price :: "ustring \<Rightarrow> rat option" where
  "server_format_price price_str =
     (if price_str = [] then None
      else
        let s1 = py_strip (strip_currency price_str);
            s2 = cut_qualifier s1;
            clean_price = filter (\<lambda>c. is_digit c \<or> c = 46) (decimal_separator s2)
        in if clean_price = [] then None else py_float clean_price)"

text \<open>\<^verbatim>\<open>ProductScraper.format_price\<close>.\<close>

definition format_price :: "ustring \<Rightarrow> rat option" where
  "format_price price_str =
     (if price_str = [] then None
      else py_float (map (\<lambda>c. if c = 44 then 46 else c)
             (filter (\<lambda>c. is_digit c \<or> c = 44) price_str)))"

text \<open>
  Notions for the statements: the two separators, the replacement of a comma by a
  period, the value of a numeral with the integer part \<open>ip\<close> and the decimals \<open>fp\<close>,
  and the texts made of digits and separators only.
\<close>

definition is_sep :: "int \<Rightarrow> bool" where
  "is_sep c \<longleftrightarrow> c = 44 \<or> c = 46"

definition comma_to_dot :: "int \<Rightarrow> int" where
  "comma_to_dot c = (if c = 44 then 46 else c)"

definition decimal_value :: "ustring \<Rightarrow> ustring \<Rightarrow> rat" where
  "decimal_value ip fp = of_int (digits_val ip) + of_int (digits_val fp) / 10 ^ length fp"

definition numeral_text :: "ustring \<Rightarrow> bool" where
  "numeral_text s \<longleftrightarrow> (\<forall>c\<in>set s. is_digit c \<or> c = 44 \<or> c = 46)"

text \<open>
  The rule for the separators in the words of the specification: when the last comma
  comes after the last period, all periods are removed and the last comma is replaced
  by a period; when the last period comes after the last comma, all commas are
  removed. \<open>spec_normalize\<close> is the normalizer with this rule in the place of
  \<open>decimal_separator\<close>, its other steps being those of
  \<^verbatim>\<open>ServerScraper._format_price\<close>.
\<close>

definition replace_last_comma :: "ustring \<Rightarrow> ustring" where
  "replace_last_comma s =
     (if 44 \<in> set s then take (nat (rfind s 44)) s @ 46 # drop (nat (rfind s 44) + 1) s else s)"

definition spec_decimal_separator :: "ustring \<Rightarrow> ustring" where
  "spec_decimal_separator s =
     (if rfind s 44 > rfind s 46 then replace_last_comma (filter (\<lambda>c. c \<noteq> 46) s)
      else if rfind s 46 > rfind s 44 then filter (\<lambda>c. c \<noteq> 44) s
      else s)"

definition spec_normalize :: "ustring \<Rightarrow> rat option" where
  "spec_normalize s =
     (if s = [] then None
      else py_float (filter (\<lambda>c. is_digit c \<or> c = 46)
             (spec_decimal_separator (cut_qualifier (py_strip (strip_currency s))))))"

section \<open>server\_scraper.py: the link resolver\<close>

text \<open>
  \<^verbatim>\<open>s.startswith(p)\<close> and \<^verbatim>\<open>p in s\<close> on strings.
\<close>

fun starts_with :: "ustring \<Rightarrow> ustring \<Rightarrow> bool" where
  "starts_with [] s = True"
| "starts_with (p # ps) [] = False"
| "starts_with (p # ps) (c # cs) = (p = c \<and> starts_with ps cs)"

fun contains :: "ustring \<Rightarrow> ustring \<Rightarrow> bool" where
  "contains p [] = (p = [])"
| "contains p (c # cs) = (starts_with p (c # cs) \<or> contains p cs)"

text \<open>
  The library and the network are parameters of the model. \<open>urlparse\<close> is
  \<^verbatim>\<open>urllib.parse.urlparse\<close>, of whose result the code reads \<^verbatim>\<open>netloc\<close>,
  \<^verbatim>\<open>path\<close> and \<^verbatim>\<open>query\<close>; it raises \<^verbatim>\<open>ValueError\<close> on some texts.
  \<open>parse_qs\<close> is \<^verbatim>\<open>urllib.parse.parse_qs\<close>: its dictionary gives every name it has
  the list of the values of that name, which is never empty, so a list is kept as its
  first value and the others. \<open>head\<close> is the request
  \<^verbatim>\<open>session.head(url, allow_redirects=True, timeout=5)\<close> and yields the \<^verbatim>\<open>url\<close> of the
  response or the exception raised.
\<close>

record parsed_url =
  netloc :: ustring
  path :: ustring
  query :: ustring

record web =
  urlparse :: "ustring \<Rightarrow> exn + parsed_url"
  parse_qs :: "ustring \<Rightarrow> exn + (ustring \<rightharpoonup> ustring \<times> ustring list)"
  head :: "ustring \<Rightarrow> exn + ustring"

definition possible_params :: "ustring list" where
  "possible_params = [u ''adurl'', u ''url'', u ''q'', u ''imgrefurl'']"

text \<open>
  The loop over \<^verbatim>\<open>possible_params\<close> in \<^verbatim>\<open>_extract_real_product_link\<close>: \<open>Inr (Some r)\<close>
  is \<^verbatim>\<open>return r\<close>, \<open>Inr None\<close> the end of the loop and \<open>Inl e\<close> an exception.
\<close>

fun check_params :: "web \<Rightarrow> (ustring \<rightharpoonup> ustring \<times> ustring list) \<Rightarrow> ustring list \<Rightarrow> exn + ustring option" where
  "check_params w query_params [] = Inr None"
| "check_params w query_params (param # ps) =
     (case query_params param of
        None \<Rightarrow> check_params w query_params ps
      | Some (real_url, others) \<Rightarrow>
          if starts_with (u ''http'') real_url
          then (case urlparse w real_url of
                  Inl e \<Rightarrow> Inl e
                | Inr p \<Rightarrow>
                    if \<not> contains (u ''google.com'') (netloc p) then Inr (Some real_url)
                    else check_params w query_params ps)
          else check_params w query_params ps)"

text \<open>
  The second step: the request is made for a link to \<^verbatim>\<open>www.google.com\<close> whose path
  has \<^verbatim>\<open>/url?\<close> or \<^verbatim>\<open>/aclk?\<close>; \<^verbatim>\<open>Timeout\<close> and \<^verbatim>\<open>RequestException\<close> are caught
  here, any other exception goes on to the outer handler.
\<close>

definition follow_redirect :: "web \<Rightarrow> ustring \<Rightarrow> parsed_url \<Rightarrow> exn + ustring option" where
  "follow_redirect w google_link parsed =
     (if netloc parsed = u ''www.google.com'' \<and>
         (contains (u ''/url?'') (path parsed) \<or> contains (u ''/aclk?'') (path parsed))
      then (case head w google_link of
              Inl e \<Rightarrow> if e = Timeout \<or> e = RequestException then Inr None else Inl e
            | Inr final_url \<Rightarrow>
                if final_url \<noteq> google_link
                then (case urlparse w final_url of
                        Inl e \<Rightarrow> Inl e
                      | Inr p \<Rightarrow>
                          if \<not> contains (u ''google.com'') (netloc p) then Inr (Some final_url)
                          else Inr None)
                else Inr None)
      else Inr None)"

definition resolve_body :: "web \<Rightarrow> ustring \<Rightarrow> exn + ustring option" where
  "resolve_body w google_link =
     (case urlparse w google_link of
        Inl e \<Rightarrow> Inl e
      | Inr parsed \<Rightarrow>
         (case parse_qs w (query parsed) of
            Inl e \<Rightarrow> Inl e
          | Inr query_params \<Rightarrow>
             (case check_params w query_params possible_params of
                Inl e \<Rightarrow> Inl e
              | Inr (Some real_url) \<Rightarrow> Inr (Some real_url)
              | Inr None \<Rightarrow> follow_redirect w google_link parsed)))"

text \<open>
  \<^verbatim>\<open>ServerScraper._extract_real_product_link\<close>: \<^verbatim>\<open>None\<close> for \<^verbatim>\<open>None\<close> and for the
  empty text; every exception of the body is caught and the link is returned as it
  came.
\<close>

definition extract_real_product_link :: "web \<Rightarrow> ustring option \<Rightarrow> ustring option" where
  "extract_real_product_link w google_link =
     (case google_link of
        None \<Rightarrow> None
      | Some l \<Rightarrow>
          if l = [] then None
          else (case resolve_body w l of
                  Inl e \<Rightarrow> Some l
                | Inr (Some r) \<Rightarrow> Some r
                | Inr None \<Rightarrow> Some l))"

text \<open>
  The notions of the specification. A value is external when it starts with
  \<^verbatim>\<open>http\<close> and its network location, as \<open>urlparse\<close> gives it, does not contain
  \<^verbatim>\<open>google.com\<close>; it fails to parse when it starts with \<^verbatim>\<open>http\<close> and \<open>urlparse\<close>
  raises. \<open>first_values\<close> lists the first value of every parameter that is present, in
  the order of priority. The redirect probe applies to a link to \<^verbatim>\<open>www.google.com\<close>
  whose path has \<^verbatim>\<open>/url?\<close> or \<^verbatim>\<open>/aclk?\<close>, and its result is the final address of
  the request when that differs from the link and is not at \<^verbatim>\<open>google.com\<close>.
\<close>

definition external_url :: "web \<Rightarrow> ustring \<Rightarrow> bool" where
  "external_url w v \<longleftrightarrow>
     starts_with (u ''http'') v \<and>
     (case urlparse w v of Inl e \<Rightarrow> False | Inr p \<Rightarrow> \<not> contains (u ''google.com'') (netloc p))"

definition parse_fails :: "web \<Rightarrow> ustring \<Rightarrow> bool" where
  "parse_fails w v \<longleftrightarrow>
     starts_with (u ''http'') v \<and> (case urlparse w v of Inl e \<Rightarrow> True | Inr p \<Rightarrow> False)"

definition first_values :: "(ustring \<rightharpoonup> ustring \<times> ustring list) \<Rightarrow> ustring list \<Rightarrow> ustring list" where
  "first_values query_params ps = List.map_filter (\<lambda>k. map_option fst (query_params k)) ps"

definition probe_applies :: "parsed_url \<Rightarrow> bool" where
  "probe_applies p \<longleftrightarrow>
     netloc p = u ''www.google.com'' \<and>
     (contains (u ''/url?'') (path p) \<or> contains (u ''/aclk?'') (path p))"

definition probe_result :: "web \<Rightarrow> ustring \<Rightarrow> ustring \<Rightarrow> bool" where
  "probe_result w google_link r \<longleftrightarrow>
     head w google_link = Inr r \<and> r \<noteq> google_link \<and>
     (case urlparse w r of Inl e \<Rightarrow> False | Inr p \<Rightarrow> \<not> contains (u ''google.com'') (netloc p))"

text \<open>
  The values of \<^verbatim>\<open>urlparse\<close> and \<^verbatim>\<open>parse_qs\<close> on the texts of two links, as Python
  computes them, with a network on which every request fails. The network location
  \<^verbatim>\<open>[x\<close> of \<^verbatim>\<open>http://[x\<close> has an opening bracket without the closing one, for which
  \<^verbatim>\<open>urlparse\<close> raises \<^verbatim>\<open>ValueError\<close>.
\<close>

definition link_a :: ustring where
  "link_a = u ''https://www.google.com/url?adurl=http://[x&url=https://shop.example.com/p''"

definition link_b :: ustring where
  "link_b = u ''https://www.google.com/url?url=https://www.google.com/shopping/product/1&q=https://shop.example.com/x''"

definition web_table :: web where
  "web_table =
     \<lparr>urlparse = (\<lambda>s.
        if s = u ''http://[x'' then Inl ValueError
        else if s = link_a then
          Inr \<lparr>netloc = u ''www.google.com'', path = u ''/url'',
               query = u ''adurl=http://[x&url=https://shop.example.com/p''\<rparr>
        else if s = link_b then
          Inr \<lparr>netloc = u ''www.google.com'', path = u ''/url'',
               query = u ''url=https://www.google.com/shopping/product/1&q=https://shop.example.com/x''\<rparr>
        else if s = u ''https://shop.example.com/p'' then
          Inr \<lparr>netloc = u ''shop.example.com'', path = u ''/p'', query = []\<rparr>
        else if s = u ''https://shop.example.com/x'' then
          Inr \<lparr>netloc = u ''shop.example.com'', path = u ''/x'', query = []\<rparr>
        else if s = u ''https://www.google.com/shopping/product/1'' then
          Inr \<lparr>netloc = u ''www.google.com'', path = u ''/shopping/product/1'', query = []\<rparr>
        else Inr \<lparr>netloc = [], path = s, query = []\<rparr>),
      parse_qs = (\<lambda>q.
        if q = u ''adurl=http://[x&url=https://shop.example.com/p'' then
          Inr [u ''adurl'' \<mapsto> (u ''http://[x'', []),
               u ''url'' \<mapsto> (u ''https://shop.example.com/p'', [])]
        else if q = u ''url=https://www.google.com/shopping/product/1&q=https://shop.example.com/x'' then
          Inr [u ''url'' \<mapsto> (u ''https://www.google.com/shopping/product/1'', []),
               u ''q'' \<mapsto> (u ''https://shop.example.com/x'', [])]
        else Inr Map.empty),
      head = (\<lambda>s. Inl RequestException)\<rparr>"

section \<open>server\_scraper.py: the extraction of the products of a page\<close>

text \<open>
  The parsed page is a parameter of the model. \<open>select_one\<close> is
  \<^verbatim>\<open>element.select_one(selector)\<close>, which is called outside the handler of
  \<^verbatim>\<open>_extract_field\<close>, so an exception it raises leaves the function. Of the element
  found the code reads \<^verbatim>\<open>get_text()\<close>, a \<^verbatim>\<open>str\<close>, or \<^verbatim>\<open>get(attribute)\<close>, which is
  \<^verbatim>\<open>None\<close>, a \<^verbatim>\<open>str\<close> or, for an attribute with several values, a list.
\<close>

datatype attr_value = Missing | Text ustring | Multi "ustring list"

record node =
  get_text :: ustring
  get_attr :: "ustring \<Rightarrow> attr_value"

record element =
  select_one :: "ustring \<Rightarrow> exn + node option"

type_synonym soup = "ustring \<Rightarrow> exn + element list"

definition container_selectors :: "ustring list" where
  "container_selectors =
     [u ''div.sh-dgr__content'', u ''div.sh-dlr__list-result'',
      u ''div.sh-pr__product-results-grid div.sh-pr__product-result'',
      u ''div[data-docid]'', u ''.i0X6df'', u ''.u30d4'']"

definition name_selectors :: "ustring list" where
  "name_selectors =
     [u ''h3.tAxDx'', u ''h4.A2sOrd'', u ''div.aULzUe'', u ''h3'', u ''.rgHvZc'', u ''.EI11Pd'']"

definition price_selectors :: "ustring list" where
  "price_selectors =
     [u ''span.a8Pemb'', u ''span.kHxwFf'', u ''span[aria-hidden='' @ 34 # u ''true'' @ 34 # u '']'',
      u ''.PZPZlf span'', u ''.HRLxBb'']"

definition link_selectors :: "ustring list" where
  "link_selectors =
     [u ''a.shntl'', u ''a.Lq5OHe'', u ''a[href*='' @ 34 # u ''shopping'' @ 34 # u '']'', u ''a'']"

text \<open>
  The placeholders for a name and a price that were not found; 227 is the a with a tilde
  and 231 the c with a cedilla.
\<close>

definition name_placeholder :: ustring where
  "name_placeholder = u ''Nome n'' @ 227 # u ''o encontrado''"

definition price_placeholder :: ustring where
  "price_placeholder = u ''Pre'' @ 231 # u ''o n'' @ 227 # u ''o encontrado''"

text \<open>
  \<^verbatim>\<open>ServerScraper._extract_field\<close>; the result \<open>None\<close> stands for
  \<^verbatim>\<open>default_value\<close>. A value is returned when it is not empty, after \<^verbatim>\<open>strip()\<close>; on a
  list \<^verbatim>\<open>strip\<close> raises, which the handler inside the loop catches, and the next
  selector is tried.
\<close>

fun extract_field :: "element \<Rightarrow> ustring list \<Rightarrow> ustring option \<Rightarrow> exn + ustring option" where
  "extract_field el [] attribute = Inr None"
| "extract_field el (selector # ss) attribute =
     (case select_one el selector of
        Inl e \<Rightarrow> Inl e
      | Inr None \<Rightarrow> extract_field el ss attribute
      | Inr (Some found_element) \<Rightarrow>
         (case (case attribute of
                  Some a \<Rightarrow> get_attr found_element a
                | None \<Rightarrow> Text (get_text found_element)) of
            Missing \<Rightarrow> extract_field el ss attribute
          | Text v \<Rightarrow> if v \<noteq> [] then Inr (Some (py_strip v)) else extract_field el ss attribute
          | Multi vs \<Rightarrow> extract_field el ss attribute))"

text \<open>
  The body of the \<^verbatim>\<open>try\<close> for one container in
  \<^verbatim>\<open>_extract_google_shopping_products\<close>: \<open>Inr (Some p)\<close> when the product \<open>p\<close> is
  appended, \<open>Inr None\<close> when the container is ignored, \<open>Inl e\<close> when an exception is
  raised. The price is tested with \<^verbatim>\<open>if price\<close>, which \<^verbatim>\<open>None\<close> and \<^verbatim>\<open>0.0\<close> fail.
\<close>

definition element_product :: "web \<Rightarrow> element \<Rightarrow> exn + rat product option" where
  "element_product w el =
     (case extract_field el name_selectors None of
        Inl e \<Rightarrow> Inl e
      | Inr nf \<Rightarrow>
     (case extract_field el price_selectors None of
        Inl e \<Rightarrow> Inl e
      | Inr pf \<Rightarrow>
     (case extract_field el link_selectors (Some (u ''href'')) of
        Inl e \<Rightarrow> Inl e
      | Inr lf \<Rightarrow>
         (let name = (case nf of None \<Rightarrow> name_placeholder | Some s \<Rightarrow> s);
              price_text = (case pf of None \<Rightarrow> price_placeholder | Some s \<Rightarrow> s);
              price = server_format_price price_text;
              link = (case lf of
                        None \<Rightarrow> None
                      | Some l \<Rightarrow>
                          if starts_with (u ''/'') l then Some (u ''https://www.google.com'' @ l)
                          else Some l);
              real_product_link = extract_real_product_link w link
          in case price of
               None \<Rightarrow> Inr None
             | Some p \<Rightarrow>
                 if p \<noteq> 0 \<and> name \<noteq> name_placeholder
                 then Inr (Some \<lparr>nome = name, preco = p,
                        link = (if real_product_link = None \<or> real_product_link = Some []
                                then link else real_product_link),
                        site = u ''Google Shopping'', cart_link = None\<rparr>)
                 else Inr None))))"

text \<open>
  The loop over the containers, with the list \<^verbatim>\<open>products\<close> and the counter
  \<^verbatim>\<open>extracted_count\<close>; an exception of the body is logged and the loop goes on.
\<close>

fun extract_loop :: "web \<Rightarrow> int \<Rightarrow> element list \<Rightarrow> rat product list \<Rightarrow> int \<Rightarrow> rat product list" where
  "extract_loop w max_results [] products extracted_count = products"
| "extract_loop w max_results (el # els) products extracted_count =
     (if extracted_count \<ge> max_results then products
      else (case element_product w el of
              Inl e \<Rightarrow> extract_loop w max_results els products extracted_count
            | Inr None \<Rightarrow> extract_loop w max_results els products extracted_count
            | Inr (Some p) \<Rightarrow>
                extract_loop w max_results els (products @ [p]) (extracted_count + 1)))"

text \<open>
  The loop over \<^verbatim>\<open>container_selectors\<close>: the containers of the first selector that
  selects any, \<open>None\<close> when the \<^verbatim>\<open>else\<close> of the \<^verbatim>\<open>for\<close> is reached.
  \<^verbatim>\<open>soup.select\<close> is called outside every handler of the function.
\<close>

fun first_containers :: "soup \<Rightarrow> ustring list \<Rightarrow> exn + element list option" where
  "first_containers sp [] = Inr None"
| "first_containers sp (selector # ss) =
     (case sp selector of
        Inl e \<Rightarrow> Inl e
      | Inr [] \<Rightarrow> first_containers sp ss
      | Inr (el # els) \<Rightarrow> Inr (Some (el # els)))"

definition extract_google_shopping_products :: "web \<Rightarrow> soup \<Rightarrow> int \<Rightarrow> exn + rat product list" where
  "extract_google_shopping_products w sp max_results =
     (case first_containers sp container_selectors of
        Inl e \<Rightarrow> Inl e
      | Inr None \<Rightarrow> Inr []
      | Inr (Some product_elements) \<Rightarrow> Inr (extract_loop w max_results product_elements [] 0))"

text \<open>The product that a container contributes, if any.\<close>

definition accepted :: "web \<Rightarrow> element \<Rightarrow> rat product option" where
  "accepted w el = (case element_product w el of Inr (Some p) \<Rightarrow> Some p | _ \<Rightarrow> None)"

text \<open>
  A page for the examples: the first container selector selects nothing, the second one
  four containers, of which the first raises on every \<^verbatim>\<open>select_one\<close> and the third has
  no price; the last selector would select one more container.
\<close>

definition el_ok :: element where
  "el_ok = \<lparr>select_one = (\<lambda>s.
      if s = u ''h3.tAxDx'' then Inr (Some \<lparr>get_text = u '' TV 50 '', get_attr = (\<lambda>a. Missing)\<rparr>)
      else if s = u ''span.a8Pemb'' then
        Inr (Some \<lparr>get_text = u ''R$ 1.999,90'', get_attr = (\<lambda>a. Missing)\<rparr>)
      else if s = u ''a.shntl'' then
        Inr (Some \<lparr>get_text = [], get_attr = (\<lambda>a.
          if a = u ''href''
          then Text (u ''/url?url=https://www.google.com/shopping/product/1&q=https://shop.example.com/x'')
          else Missing)\<rparr>)
      else Inr None)\<rparr>"

definition el_raises :: element where
  "el_raises = \<lparr>select_one = (\<lambda>s. Inl OtherException)\<rparr>"

definition el_no_price :: element where
  "el_no_price = \<lparr>select_one = (\<lambda>s.
      if s = u ''h3'' then Inr (Some \<lparr>get_text = u ''TV 42'', get_attr = (\<lambda>a. Missing)\<rparr>)
      else Inr None)\<rparr>"

definition soup_ex :: soup where
  "soup_ex = (\<lambda>s.
      if s = u ''div.sh-dlr__list-result'' then Inr [el_raises, el_ok, el_no_price, el_ok]
      else if s = u ''.u30d4'' then Inr [el_ok]
      else Inr [])"

definition product_ex :: "rat product" where
  "product_ex = \<lparr>nome = u ''TV 50'', preco = 1999.90,
      link = Some (u ''https://shop.example.com/x''), site = u ''Google Shopping'',
      cart_link = None\<rparr>"

section \<open>server\_scraper.py: the search with its targets and retries\<close>

text \<open>
  \<^verbatim>\<open>results[:max_results]\<close>: a negative bound counts from the end.
\<close>

definition py_slice_to :: "'a list \<Rightarrow> int \<Rightarrow> 'a list" where
  "py_slice_to xs n = (if n \<ge> 0 then take (nat n) xs else take (length xs - nat (- n)) xs)"

text \<open>
  \<^verbatim>\<open>urllib.parse.quote_plus(query)\<close>. The text is encoded in UTF-8, which raises
  \<^verbatim>\<open>UnicodeEncodeError\<close> at a surrogate (55296 to 57343); \<open>utf8\<close> has the bytes of one
  character. A byte that is an ASCII letter, a digit or one of \<^verbatim>\<open>_.-~\<close> stays, the
  space becomes \<^verbatim>\<open>+\<close>, and every other byte becomes \<^verbatim>\<open>%\<close> and its two hexadecimal
  digits, in capitals.
\<close>

definition utf8 :: "int \<Rightarrow> int list option" where
  "utf8 c =
     (if 0 \<le> c \<and> c < 128 then Some [c]
      else if 128 \<le> c \<and> c < 2048 then Some [192 + c div 64, 128 + c mod 64]
      else if 55296 \<le> c \<and> c \<le> 57343 then None
      else if 2048 \<le> c \<and> c < 65536
        then Some [224 + c div 4096, 128 + (c div 64) mod 64, 128 + c mod 64]
      else if 65536 \<le> c \<and> c < 1114112
        then Some [240 + c div 262144, 128 + (c div 4096) mod 64, 128 + (c div 64) mod 64,
               128 + c mod 64]
      else None)"

fun encode_utf8 :: "ustring \<Rightarrow> exn + int list" where
  "encode_utf8 [] = Inr []"
| "encode_utf8 (c # cs) =
     (case utf8 c of
        None \<Rightarrow> Inl UnicodeEncodeError
      | Some bs \<Rightarrow> (case encode_utf8 cs of Inl e \<Rightarrow> Inl e | Inr r \<Rightarrow> Inr (bs @ r)))"

definition always_safe :: "int \<Rightarrow> bool" where
  "always_safe b \<longleftrightarrow>
     (65 \<le> b \<and> b \<le> 90) \<or> (97 \<le> b \<and> b \<le> 122) \<or> (48 \<le> b \<and> b \<le> 57) \<or>
     b = 95 \<or> b = 46 \<or> b = 45 \<or> b = 126"

definition hex_digit :: "int \<Rightarrow> int" where
  "hex_digit d = (if d < 10 then 48 + d else 55 + d)"

definition quote_byte :: "int \<Rightarrow> ustring" where
  "quote_byte b =
     (if always_safe b then [b]
      else if b = 32 then [43]
      else [37, hex_digit (b div 16), hex_digit (b mod 16)])"

definition quote_plus :: "ustring \<Rightarrow> exn + ustring" where
  "quote_plus s = (case encode_utf8 s of Inl e \<Rightarrow> Inl e | Inr bs \<Rightarrow> Inr (concat (map quote_byte bs)))"

text \<open>
  The network and the parser are parameters. \<open>session_get url a\<close> is what attempt
  \<open>a\<close> for \<open>url\<close> gets from \<^verbatim>\<open>session.get\<close>: a response or the exception raised
  (every pair of a target and an attempt is requested once at most). Of a response the
  code calls \<^verbatim>\<open>raise_for_status()\<close>, which raises or not, and reads \<^verbatim>\<open>text\<close>, a
  property that decodes the body with the encoding of the response and can raise: for
  the encoding \<^verbatim>\<open>undefined\<close>, which a server can name in the header
  \<^verbatim>\<open>Content-Type\<close>, decoding raises \<^verbatim>\<open>UnicodeError\<close>. The body is read when the
  request is made, so every reading of \<^verbatim>\<open>text\<close> gives the same. \<open>parse_html\<close> is
  \<^verbatim>\<open>BeautifulSoup(html_content, "html.parser")\<close>. The delays have no part in the
  result and are left out, and so is the branch for \<^verbatim>\<open>render_js\<close>, which is
  \<^verbatim>\<open>False\<close>.
\<close>

record response =
  raise_for_status :: "exn option"
  resp_text :: "exn + ustring"

record net =
  session_get :: "ustring \<Rightarrow> nat \<Rightarrow> exn + response"
  parse_html :: "ustring \<Rightarrow> exn + soup"

definition urls_to_try :: "ustring \<Rightarrow> ustring list" where
  "urls_to_try encoded_query =
     [u ''https://www.google.com/search?q='' @ encoded_query @ u ''&tbm=shop'',
      u ''https://www.google.com.br/search?q='' @ encoded_query @ u ''&tbm=shop&hl=pt-BR&gl=br'',
      u ''https://www.google.com/search?q='' @ encoded_query @ u ''&tbm=shop&source=lnms&sa=X'']"

definition max_retries :: nat where
  "max_retries = 3"

definition blocked :: "ustring \<Rightarrow> bool" where
  "blocked html_content \<longleftrightarrow>
     contains (u ''Our systems have detected unusual traffic'') html_content \<or>
     contains (u ''recaptcha'') html_content"

text \<open>
  One attempt. \<open>attempt_body\<close> is the body of the \<^verbatim>\<open>try\<close>: it returns from the
  function, leaves the loop of the attempts with \<^verbatim>\<open>break\<close>, goes on to the end of the
  iteration, or raises. The list \<^verbatim>\<open>results\<close> is empty until the \<^verbatim>\<open>return\<close>.
\<close>

datatype attempt_result = Return "rat product list" | Break | Continue | Raise exn

definition attempt_body :: "web \<Rightarrow> net \<Rightarrow> ustring \<Rightarrow> int \<Rightarrow> nat \<Rightarrow> exn + attempt_result" where
  "attempt_body w n url max_results a =
     (case session_get n url a of
        Inl e \<Rightarrow> Inl e
      | Inr r \<Rightarrow>
         (case raise_for_status r of
            Some e \<Rightarrow> Inl e
          | None \<Rightarrow>
             (case resp_text r of
                Inl e \<Rightarrow> Inl e
              | Inr html_content \<Rightarrow>
                  if blocked html_content then Inr Break
                  else (case parse_html n html_content of
                          Inl e \<Rightarrow> Inl e
                        | Inr sp \<Rightarrow>
                           (case extract_google_shopping_products w sp max_results of
                              Inl e \<Rightarrow> Inl e
                            | Inr products \<Rightarrow>
                                if products \<noteq> []
                                then Inr (Return (py_slice_to ([] @ products) max_results))
                                else Inr Continue)))))"

text \<open>
  The variable \<^verbatim>\<open>response\<close> is a local of the whole function: it is unbound, which
  is \<open>None\<close> here, until a request returns, and then it holds the last response that
  one did. \<open>response_after\<close> is the variable after attempt \<open>a\<close> for \<open>url\<close>.
\<close>

definition response_after :: "net \<Rightarrow> ustring \<Rightarrow> nat \<Rightarrow> response option \<Rightarrow> response option" where
  "response_after n url a response =
     (case session_get n url a of Inl e \<Rightarrow> response | Inr r \<Rightarrow> Some r)"

text \<open>
  The three handlers. The one for \<^verbatim>\<open>Timeout\<close> writes to the log. The ones for
  \<^verbatim>\<open>RequestException\<close> and for every other \<^verbatim>\<open>Exception\<close> test
  \<^verbatim>\<open>'response' in locals()\<close> and then read \<^verbatim>\<open>response.text\<close> for the argument of
  \<^verbatim>\<open>_save_html_on_error\<close>, which itself raises nothing; this reading is inside no
  \<^verbatim>\<open>try\<close>, so what it raises leaves the function.
\<close>

definition handler :: "exn \<Rightarrow> response option \<Rightarrow> attempt_result" where
  "handler e response =
     (if e = Timeout then Continue
      else (case response of
              None \<Rightarrow> Continue
            | Some r \<Rightarrow> (case resp_text r of Inl e' \<Rightarrow> Raise e' | Inr html \<Rightarrow> Continue)))"

definition attempt :: "web \<Rightarrow> net \<Rightarrow> ustring \<Rightarrow> int \<Rightarrow> nat \<Rightarrow> response option \<Rightarrow> attempt_result" where
  "attempt w n url max_results a response =
     (case attempt_body w n url max_results a of
        Inl e \<Rightarrow> handler e (response_after n url a response)
      | Inr r \<Rightarrow> r)"

text \<open>
  The loop \<^verbatim>\<open>for attempt in range(self.max_retries)\<close>, which returns from the
  function, raises, or ends, by itself or by \<^verbatim>\<open>break\<close>, with a value of
  \<^verbatim>\<open>response\<close>; and the loop over the targets, at whose end the empty \<^verbatim>\<open>results\<close>
  is returned.
\<close>

datatype loop_result = Returned "rat product list" | Raised exn | Ended "response option"

fun attempts_loop :: "web \<Rightarrow> net \<Rightarrow> ustring \<Rightarrow> int \<Rightarrow> nat list \<Rightarrow> response option \<Rightarrow> loop_result" where
  "attempts_loop w n url max_results [] response = Ended response"
| "attempts_loop w n url max_results (a # as) response =
     (case attempt w n url max_results a response of
        Return r \<Rightarrow> Returned r
      | Raise e \<Rightarrow> Raised e
      | Break \<Rightarrow> Ended (response_after n url a response)
      | Continue \<Rightarrow> attempts_loop w n url max_results as (response_after n url a response))"

fun urls_loop :: "web \<Rightarrow> net \<Rightarrow> int \<Rightarrow> ustring list \<Rightarrow> response option \<Rightarrow> exn + rat product list" where
  "urls_loop w n max_results [] response = Inr []"
| "urls_loop w n max_results (url # urls) response =
     (case attempts_loop w n url max_results [0..<max_retries] response of
        Returned r \<Rightarrow> Inr r
      | Raised e \<Rightarrow> Inl e
      | Ended response' \<Rightarrow> urls_loop w n max_results urls response')"

text \<open>
  \<^verbatim>\<open>ServerScraper.search_google_shopping\<close>; the result is \<open>Inr\<close> of the list returned,
  \<open>Inl\<close> of an exception that leaves the function. The call of \<^verbatim>\<open>quote_plus\<close> comes
  before the loops and is outside every \<^verbatim>\<open>try\<close>.
\<close>

definition search_google_shopping :: "web \<Rightarrow> net \<Rightarrow> ustring \<Rightarrow> int \<Rightarrow> exn + rat product list" where
  "search_google_shopping w n qry max_results =
     (case quote_plus qry of
        Inl e \<Rightarrow> Inl e
      | Inr encoded_query \<Rightarrow> urls_loop w n max_results (urls_to_try encoded_query) None)"

text \<open>
  The texts that UTF-8 encodes: their characters are code points, up to 1114111, and
  none is a surrogate. The variable \<^verbatim>\<open>response\<close> is readable when it is unbound or
  the text of its response can be read, and a network is decodable when the text of
  every response that it gives can be read.
\<close>

definition encodable :: "ustring \<Rightarrow> bool" where
  "encodable s \<longleftrightarrow> (\<forall>c\<in>set s. 0 \<le> c \<and> c < 1114112 \<and> \<not> (55296 \<le> c \<and> c \<le> 57343))"

definition readable :: "response option \<Rightarrow> bool" where
  "readable response \<longleftrightarrow>
     (case response of
        None \<Rightarrow> True
      | Some r \<Rightarrow> (case resp_text r of Inl e \<Rightarrow> False | Inr html \<Rightarrow> True))"

definition decodable :: "net \<Rightarrow> bool" where
  "decodable n \<longleftrightarrow> (\<forall>url a r. session_get n url a = Inr r \<longrightarrow> readable (Some r))"

text \<open>
  Networks for the examples, for the query \<^verbatim>\<open>tv\<close>, which \<^verbatim>\<open>quote_plus\<close> leaves as it
  is. On \<open>net_ex\<close> the first target times out and then answers with the challenge; the
  second answers with a page without products and then with the page of the example
  above. On \<open>net_down\<close> every request times out. On \<open>net_undefined\<close> every request
  is answered with a response of the encoding \<^verbatim>\<open>undefined\<close>.
\<close>

definition page :: "ustring \<Rightarrow> response" where
  "page html = \<lparr>raise_for_status = None, resp_text = Inr html\<rparr>"

definition undefined_page :: response where
  "undefined_page = \<lparr>raise_for_status = None, resp_text = Inl UnicodeError\<rparr>"

definition net_ex :: net where
  "net_ex =
     \<lparr>session_get = (\<lambda>url a.
        if url = u ''https://www.google.com/search?q=tv&tbm=shop'' then
          (if a = 0 then Inl Timeout else Inr (page (u ''<div class=g-recaptcha></div>'')))
        else if url = u ''https://www.google.com.br/search?q=tv&tbm=shop&hl=pt-BR&gl=br'' then
          (if a = 0 then Inr (page (u ''<html></html>''))
           else if a = 1 then Inr (page (u ''<html>products</html>''))
           else Inl RequestException)
        else Inl Timeout),
      parse_html = (\<lambda>h. if h = u ''<html>products</html>'' then Inr soup_ex else Inr (\<lambda>s. Inr []))\<rparr>"

definition net_down :: net where
  "net_down = \<lparr>session_get = (\<lambda>url a. Inl Timeout),
      parse_html = (\<lambda>h. Inr (\<lambda>s. Inr []))\<rparr>"

definition net_undefined :: net where
  "net_undefined = \<lparr>session_get = (\<lambda>url a. Inr undefined_page),
      parse_html = (\<lambda>h. Inr (\<lambda>s. Inr []))\<rparr>"

section \<open>shopping\_api.py: the search with its cache and its lock\<close>

text \<open>
  The state of a \<^verbatim>\<open>ShoppingAPI\<close> is the dictionary \<^verbatim>\<open>search_cache\<close> and the lock
  \<^verbatim>\<open>search_lock\<close>, which is held while another call is between its \<^verbatim>\<open>acquire\<close> and its
  \<^verbatim>\<open>release\<close>. The trace records what a call does to the cache, the lock, the scraper
  and the files, in the order in which it does it.
\<close>

datatype event = CacheRead ustring | CacheWrite ustring | LockRefused | LockAcquired
  | LockReleased | Fetch ustring | Save

record api_state =
  search_cache :: "ustring \<rightharpoonup> rat \<times> search_output"
  lock_held :: bool
  trace :: "event list"

text \<open>
  The collaborators are parameters: \<open>search_all_sites\<close> is the method of a new
  \<^verbatim>\<open>ProductScraper\<close>, the whole fetch pipeline, \<open>save_results\<close> the writing of the JSON
  file by \<^verbatim>\<open>_save_results\<close>, which returns the path, and \<open>lower\<close> is \<^verbatim>\<open>str.lower\<close>.
  Both of the first two can raise.
\<close>

record scraper =
  search_all_sites :: "ustring \<Rightarrow> exn + price product list"
  save_results :: "search_output \<Rightarrow> exn + ustring"
  lower :: "ustring \<Rightarrow> ustring"

definition add_event :: "event \<Rightarrow> api_state \<Rightarrow> api_state" where
  "add_event e st = st\<lparr>trace := trace st @ [e]\<rparr>"

text \<open>
  The body of the \<^verbatim>\<open>try\<close> of \<^verbatim>\<open>search_products\<close>, run with the lock held. The cache is
  written after the file has been saved.
\<close>

definition run_search :: "scraper \<Rightarrow> api_state \<Rightarrow> ustring \<Rightarrow> ustring \<Rightarrow> rat \<Rightarrow> ustring \<Rightarrow>
    api_state \<times> (exn + search_output \<times> ustring option)" where
  "run_search sc st qry cache_key current_time ts =
     (let st1 = add_event (Fetch qry) st
      in case search_all_sites sc qry of
           Inl e \<Rightarrow> (st1, Inl e)
         | Inr results \<Rightarrow>
            (case format_results (find_best_deals results) qry ts of
               Inl e \<Rightarrow> (st1, Inl e)
             | Inr formatted_results \<Rightarrow>
                (let st2 = add_event Save st1
                 in case save_results sc formatted_results of
                      Inl e \<Rightarrow> (st2, Inl e)
                    | Inr json_filepath \<Rightarrow>
                        (add_event (CacheWrite cache_key)
                           (st2\<lparr>search_cache := (search_cache st2)
                                  (cache_key \<mapsto> (current_time, formatted_results))\<rparr>),
                         Inr (formatted_results, Some json_filepath)))))"

text \<open>
  After the cache: \<^verbatim>\<open>acquire(blocking=False)\<close> fails at once when the lock is held and
  \<^verbatim>\<open>RuntimeError\<close> is raised; otherwise the search runs and \<^verbatim>\<open>finally\<close> releases the lock.
\<close>

definition locked_search :: "scraper \<Rightarrow> api_state \<Rightarrow> ustring \<Rightarrow> ustring \<Rightarrow> rat \<Rightarrow> ustring \<Rightarrow>
    api_state \<times> (exn + search_output \<times> ustring option)" where
  "locked_search sc st qry cache_key current_time ts =
     (if lock_held st then (add_event LockRefused st, Inl RuntimeError)
      else
        (case run_search sc (add_event LockAcquired (st\<lparr>lock_held := True\<rparr>))
                qry cache_key current_time ts of
           (st', res) \<Rightarrow> (add_event LockReleased (st'\<lparr>lock_held := False\<rparr>), res)))"

text \<open>
  \<^verbatim>\<open>ShoppingAPI.search_products\<close>; \<open>current_time\<close> is the value of \<^verbatim>\<open>time.time()\<close> and
  \<open>ts\<close> the text of \<^verbatim>\<open>datetime.now()\<close>. \<^verbatim>\<open>ValueError\<close> is the error of an invalid query,
  \<^verbatim>\<open>RuntimeError\<close> the one of a search in progress.
\<close>

definition search_products :: "scraper \<Rightarrow> api_state \<Rightarrow> ustring option \<Rightarrow> rat \<Rightarrow> ustring \<Rightarrow>
    api_state \<times> (exn + search_output \<times> ustring option)" where
  "search_products sc st qry current_time ts =
     (case qry of
        None \<Rightarrow> (st, Inl ValueError)
      | Some q0 \<Rightarrow>
          if q0 = [] \<or> py_strip q0 = [] then (st, Inl ValueError)
          else
            (let q = py_strip q0;
                 cache_key = lower sc q;
                 st1 = add_event (CacheRead cache_key) st
             in case search_cache st cache_key of
                  None \<Rightarrow> locked_search sc st1 q cache_key current_time ts
                | Some (cache_time, cache_results) \<Rightarrow>
                    if current_time - cache_time < 300 then (st1, Inr (cache_results, None))
                    else locked_search sc st1 q cache_key current_time ts))"

text \<open>The key of a query, and whether the cache has an entry for a key that is still valid.\<close>

definition cache_key_of :: "scraper \<Rightarrow> ustring \<Rightarrow> ustring" where
  "cache_key_of sc q = lower sc (py_strip q)"

definition fresh_entry :: "api_state \<Rightarrow> ustring \<Rightarrow> rat \<Rightarrow> bool" where
  "fresh_entry st k current_time \<longleftrightarrow>
     (case search_cache st k of None \<Rightarrow> False | Some (cache_time, r) \<Rightarrow> current_time - cache_time < 300)"

text \<open>
  Collaborators and states for the examples: the scraper finds the three products of
  the example above, \<open>lower\<close> is \<^verbatim>\<open>str.lower\<close> on ASCII text.
\<close>

definition ascii_lower :: "ustring \<Rightarrow> ustring" where
  "ascii_lower s = map (\<lambda>c. if 65 \<le> c \<and> c \<le> 90 then c + 32 else c) s"

definition scraper_ex :: scraper where
  "scraper_ex = \<lparr>search_all_sites = (\<lambda>q. Inr ex_results),
      save_results = (\<lambda>r. Inr (u ''results/tv_20240101_100000.json'')),
      lower = ascii_lower\<rparr>"

definition out_ex :: search_output where
  "out_ex = \<lparr>out_query = u ''tv'', out_timestamp = u ''2024-01-01 10:00:00'',
      out_results = [], best_overall = None\<rparr>"

definition state_busy :: api_state where
  "state_busy = \<lparr>search_cache = [u ''tv'' \<mapsto> (1000, out_ex)], lock_held = True, trace = []\<rparr>"

definition state_idle :: api_state where
  "state_idle = \<lparr>search_cache = Map.empty, lock_held = False, trace = []\<rparr>"

section \<open>Properties of the aggregation\<close>

lemma price_less [simp]:
  "(Fin a < Fin b) = (a < b)" "Fin a < PInf" "\<not> PInf < p"
proof -
  show "(Fin a < Fin b) = (a < b)" by (auto simp: less_price_def)
  show "Fin a < PInf" by (simp add: less_price_def)
  show "\<not> PInf < p" by (cases p) (simp_all add: less_price_def)
qed

lemma first_min_snoc:
  assumes "first_min k ys b"
  shows "first_min k (ys @ [x]) (if k x < k b then x else b)"
proof -
  from assms obtain pre post where d: "ys = pre @ b # post"
    and lt: "\<forall>y\<in>set pre. k b < k y" and le: "\<forall>y\<in>set post. k b \<le> k y"
    unfolding first_min_def by blast
  show ?thesis
  proof (cases "k x < k b")
    case True
    have "\<forall>y\<in>set ys. k x < k y"
      using True d lt le by (auto intro: less_trans less_le_trans)
    moreover have "ys @ [x] = ys @ x # []" by simp
    ultimately show ?thesis
      unfolding first_min_def using True by (intro exI[of _ ys] exI[of _ "[]"]) simp
  next
    case False
    have "ys @ [x] = pre @ b # (post @ [x])" using d by simp
    moreover have "\<forall>y\<in>set (post @ [x]). k b \<le> k y" using le False by auto
    ultimately show ?thesis
      unfolding first_min_def using False lt by (intro exI[of _ pre] exI[of _ "post @ [x]"]) simp
  qed
qed

lemma min_from_first_min_gen:
  "first_min k ys b \<Longrightarrow> first_min k (ys @ xs) (min_from k b xs)"
proof (induction xs arbitrary: ys b)
  case Nil
  then show ?case by simp
next
  case (Cons x xs)
  from first_min_snoc[OF Cons.prems, of x]
  have "first_min k ((ys @ [x]) @ xs) (min_from k (if k x < k b then x else b) xs)"
    by (rule Cons.IH)
  then show ?case by simp
qed

lemma min_from_first_min: "first_min k (x # xs) (min_from k x xs)"
proof -
  have "first_min k [x] x"
    unfolding first_min_def by (intro exI[of _ "[]"]) simp
  from min_from_first_min_gen[OF this, of xs] show ?thesis by simp
qed

lemma site_step_apply:
  "site_step results s m st =
     (if st = s then (case site_best results s of None \<Rightarrow> m s | Some d \<Rightarrow> Some d) else m st)"
  by (simp add: site_step_def site_best_def Let_def split: list.splits)

lemma fold_site_step:
  "fold (site_step results) ss m st =
     (if st \<in> set ss then (case site_best results st of None \<Rightarrow> m st | Some d \<Rightarrow> Some d) else m st)"
proof (induction ss arbitrary: m)
  case Nil
  then show ?case by simp
next
  case (Cons s ss)
  have "fold (site_step results) (s # ss) m st
          = fold (site_step results) ss (site_step results s m) st"
    by simp
  also have "\<dots> = (if st \<in> set ss
        then (case site_best results st of None \<Rightarrow> site_step results s m st | Some d \<Rightarrow> Some d)
        else site_step results s m st)"
    by (rule Cons.IH)
  also have "\<dots> = (if st \<in> set (s # ss)
        then (case site_best results st of None \<Rightarrow> m st | Some d \<Rightarrow> Some d) else m st)"
    by (simp add: site_step_apply split: option.splits)
  finally show ?case .
qed

lemma melhor_oferta_not_site: "melhor_oferta \<notin> set sites"
  by (simp add: melhor_oferta_def sites_def u_def)

lemma find_best_deals_site:
  "st \<in> set sites \<Longrightarrow> find_best_deals results st = site_best results st"
  using melhor_oferta_not_site
  by (auto simp: find_best_deals_def Let_def fold_site_step split: list.splits option.splits)

lemma map_filter_cong_set:
  "(\<And>x. x \<in> set xs \<Longrightarrow> f x = g x) \<Longrightarrow> List.map_filter f xs = List.map_filter g xs"
  by (simp add: List.map_filter_def cong: map_cong filter_cong)

lemma valid_deals_eq:
  "List.map_filter (fold (site_step results) sites Map.empty) sites
     = List.map_filter (find_best_deals results) sites"
  by (rule map_filter_cong_set) (simp add: find_best_deals_site fold_site_step split: option.splits)

lemma find_best_deals_overall:
  "find_best_deals results melhor_oferta =
     (case List.map_filter (find_best_deals results) sites of
        [] \<Rightarrow> None
      | d # ds \<Rightarrow> Some (min_from preco d ds))"
proof -
  have "fold (site_step results) sites Map.empty melhor_oferta = None"
    using melhor_oferta_not_site by (simp add: fold_site_step)
  then show ?thesis
    unfolding valid_deals_eq[symmetric]
    by (simp add: find_best_deals_def Let_def split: list.splits)
qed

lemma first_min_mem: "first_min k xs x \<Longrightarrow> x \<in> set xs"
  by (auto simp: first_min_def)

lemma fst_site_entry: "fst (site_entry best_deals st) = st"
  by (simp add: site_entry_def split: option.splits)

lemma site_best_site: "site_best results st = Some d \<Longrightarrow> site d = st"
proof -
  assume a: "site_best results st = Some d"
  then obtain r rs where f: "filter (\<lambda>r. site r = st) results = r # rs"
    and d: "d = (min_from preco r rs)\<lparr>cart_link := Some (get_cart_link (link (min_from preco r rs)) st)\<rparr>"
    by (auto simp: site_best_def split: list.splits)
  have "first_min preco (r # rs) (min_from preco r rs)" by (rule min_from_first_min)
  then have "min_from preco r rs \<in> set (filter (\<lambda>r. site r = st) results)"
    unfolding f by (rule first_min_mem)
  then show ?thesis using d by simp
qed

lemma sites_simps:
  "u ''Google Shopping'' \<in> set sites" "u ''Mercado Livre'' \<in> set sites" "u ''Kabum'' \<in> set sites"
  by (simp_all add: sites_def)

lemma example_overall:
  assumes a: "find_best_deals results (u ''Google Shopping'') = Some a" "preco a = Fin 100"
    and b: "find_best_deals results (u ''Mercado Livre'') = Some b" "preco b = Fin 80"
    and c: "find_best_deals results (u ''Kabum'') = None"
  shows "find_best_deals results melhor_oferta = Some b"
    and "site b = u ''Mercado Livre''"
    and "\<exists>out bo. format_results (find_best_deals results) q ts = Inr out \<and>
           best_overall out = Some bo \<and> bo_site bo = u ''Mercado Livre'' \<and>
           bo_preco_valor bo = Fin 80 \<and> economia bo = Economia 20 20 \<and>
           map_of (out_results out) (u ''Kabum'') = Some no_offer"
proof -
  have v: "List.map_filter (find_best_deals results) sites = [a, b]"
    using a b c by (simp add: sites_def List.map_filter_simps)
  show mo: "find_best_deals results melhor_oferta = Some b"
    using a b by (simp add: find_best_deals_overall v)
  show sb: "site b = u ''Mercado Livre''"
    using b(1) site_best_site[of results "u ''Mercado Livre''" b]
    by (simp add: find_best_deals_site sites_simps)
  have r: "map (site_entry (find_best_deals results)) sites =
      [site_entry (find_best_deals results) (u ''Google Shopping''),
       site_entry (find_best_deals results) (u ''Mercado Livre''),
       (u ''Kabum'', no_offer)]"
    using c by (simp add: sites_def site_entry_def)
  have cs: "calculate_savings (Fin 80) (map (site_entry (find_best_deals results)) sites)
      = Inr (Economia 20 20)"
    unfolding r using a b
    by (simp add: calculate_savings_def site_entry_def no_offer_def List.map_filter_simps)
  show "\<exists>out bo. format_results (find_best_deals results) q ts = Inr out \<and>
           best_overall out = Some bo \<and> bo_site bo = u ''Mercado Livre'' \<and>
           bo_preco_valor bo = Fin 80 \<and> economia bo = Economia 20 20 \<and>
           map_of (out_results out) (u ''Kabum'') = Some no_offer"
    using mo sb b(2) cs
    by (simp add: format_results_def Let_def r fst_site_entry u_def)
qed

text \<open>
  Claim C1. For every list of scraped products and every site of \<open>sites\<close>, the best
  deal of the site is the first product of minimal price among the products of that
  site (with its cart link), and a site without a product has no deal and the entry
  \<open>no_offer\<close> in the formatted result. The best offer overall is the first deal of
  minimal price among the deals of the sites, taken in the order of \<open>sites\<close>. In
  particular, when the best prices are 100 for Google Shopping and 80 for Mercado Livre
  and Kabum has no product, the best offer is the one of Mercado Livre at 80, the
  savings are taken against 100 and the entry of Kabum is \<open>no_offer\<close>.
\<close>

theorem best_deals_per_site_and_overall:
  "(\<forall>st\<in>set sites.
      (filter (\<lambda>r. site r = st) results = [] \<longrightarrow>
         find_best_deals results st = None \<and>
         site_entry (find_best_deals results) st = (st, no_offer)) \<and>
      (filter (\<lambda>r. site r = st) results \<noteq> [] \<longrightarrow>
         (\<exists>r. first_min preco (filter (\<lambda>r. site r = st) results) r \<and>
              find_best_deals results st =
                Some (r\<lparr>cart_link := Some (get_cart_link (link r) st)\<rparr>)))) \<and>
   (List.map_filter (find_best_deals results) sites = [] \<longrightarrow>
      find_best_deals results melhor_oferta = None) \<and>
   (List.map_filter (find_best_deals results) sites \<noteq> [] \<longrightarrow>
      (\<exists>d. first_min preco (List.map_filter (find_best_deals results) sites) d \<and>
           find_best_deals results melhor_oferta = Some d)) \<and>
   (\<forall>a b. find_best_deals results (u ''Google Shopping'') = Some a \<and> preco a = Fin 100 \<and>
          find_best_deals results (u ''Mercado Livre'') = Some b \<and> preco b = Fin 80 \<and>
          find_best_deals results (u ''Kabum'') = None \<longrightarrow>
          find_best_deals results melhor_oferta = Some b \<and> site b = u ''Mercado Livre'' \<and>
          (\<exists>out bo. format_results (find_best_deals results) q ts = Inr out \<and>
             best_overall out = Some bo \<and> bo_site bo = u ''Mercado Livre'' \<and>
             bo_preco_valor bo = Fin 80 \<and> economia bo = Economia 20 20 \<and>
             map_of (out_results out) (u ''Kabum'') = Some no_offer))"
proof (intro conjI ballI impI allI)
  fix st assume st: "st \<in> set sites" and e: "filter (\<lambda>r. site r = st) results = []"
  then show n: "find_best_deals results st = None"
    by (simp add: find_best_deals_site site_best_def)
  then show "site_entry (find_best_deals results) st = (st, no_offer)"
    by (simp add: site_entry_def)
next
  fix st assume st: "st \<in> set sites" and ne: "filter (\<lambda>r. site r = st) results \<noteq> []"
  then obtain r rs where f: "filter (\<lambda>r. site r = st) results = r # rs"
    by (cases "filter (\<lambda>r. site r = st) results") auto
  have "first_min preco (r # rs) (min_from preco r rs)" by (rule min_from_first_min)
  moreover have "find_best_deals results st = Some ((min_from preco r rs)
       \<lparr>cart_link := Some (get_cart_link (link (min_from preco r rs)) st)\<rparr>)"
    using st f by (simp add: find_best_deals_site site_best_def)
  ultimately show "\<exists>r. first_min preco (filter (\<lambda>r. site r = st) results) r \<and>
      find_best_deals results st = Some (r\<lparr>cart_link := Some (get_cart_link (link r) st)\<rparr>)"
    unfolding f by blast
next
  assume "List.map_filter (find_best_deals results) sites = []"
  then show "find_best_deals results melhor_oferta = None"
    by (simp add: find_best_deals_overall)
next
  assume "List.map_filter (find_best_deals results) sites \<noteq> []"
  then obtain d ds where v: "List.map_filter (find_best_deals results) sites = d # ds"
    by (cases "List.map_filter (find_best_deals results) sites") auto
  have "first_min preco (d # ds) (min_from preco d ds)" by (rule min_from_first_min)
  then show "\<exists>d. first_min preco (List.map_filter (find_best_deals results) sites) d \<and>
      find_best_deals results melhor_oferta = Some d"
    by (simp add: find_best_deals_overall v)
next
  fix a b
  assume h: "find_best_deals results (u ''Google Shopping'') = Some a \<and> preco a = Fin 100 \<and>
          find_best_deals results (u ''Mercado Livre'') = Some b \<and> preco b = Fin 80 \<and>
          find_best_deals results (u ''Kabum'') = None"
  then show "find_best_deals results melhor_oferta = Some b"
    by (intro example_overall(1)[of results a b]) simp_all
  from h show "site b = u ''Mercado Livre''"
    by (intro example_overall(2)[of results a b]) simp_all
  from h show "\<exists>out bo. format_results (find_best_deals results) q ts = Inr out \<and>
             best_overall out = Some bo \<and> bo_site bo = u ''Mercado Livre'' \<and>
             bo_preco_valor bo = Fin 80 \<and> economia bo = Economia 20 20 \<and>
             map_of (out_results out) (u ''Kabum'') = Some no_offer"
    by (intro example_overall(3)[of results a b]) simp_all
qed

lemma ex_bd:
  "find_best_deals ex_results (u ''Google Shopping'') = Some ((ex_results ! 0)\<lparr>cart_link := Some (Some (u ''https://a.example/1''))\<rparr>)"
  "find_best_deals ex_results (u ''Mercado Livre'') = Some ((ex_results ! 2)\<lparr>cart_link := Some (Some (u ''https://b.example/2''))\<rparr>)"
  "find_best_deals ex_results (u ''Kabum'') = None"
  unfolding find_best_deals_site[OF sites_simps(1)] find_best_deals_site[OF sites_simps(2)]
    find_best_deals_site[OF sites_simps(3)]
  by (simp_all add: site_best_def ex_results_def u_def get_cart_link_def)

text \<open>
  The theorem at \<open>ex_results\<close>: one product of Google Shopping at 100, two of Mercado
  Livre at 95 and 80, none of Kabum.
\<close>

theorem best_deals_per_site_and_overall_witness:
  "filter (\<lambda>r. site r = u ''Kabum'') ex_results = [] \<and>
   site_entry (find_best_deals ex_results) (u ''Kabum'') = (u ''Kabum'', no_offer) \<and>
   filter (\<lambda>r. site r = u ''Mercado Livre'') ex_results \<noteq> [] \<and>
   (\<exists>r. first_min preco (filter (\<lambda>r. site r = u ''Mercado Livre'') ex_results) r \<and>
        find_best_deals ex_results (u ''Mercado Livre'') =
          Some (r\<lparr>cart_link := Some (get_cart_link (link r) (u ''Mercado Livre''))\<rparr>)) \<and>
   List.map_filter (find_best_deals ex_results) sites \<noteq> [] \<and>
   (\<exists>d. first_min preco (List.map_filter (find_best_deals ex_results) sites) d \<and>
        find_best_deals ex_results melhor_oferta = Some d) \<and>
   (\<exists>a b. find_best_deals ex_results (u ''Google Shopping'') = Some a \<and> preco a = Fin 100 \<and>
        find_best_deals ex_results (u ''Mercado Livre'') = Some b \<and> preco b = Fin 80 \<and>
        find_best_deals ex_results (u ''Kabum'') = None \<and>
        find_best_deals ex_results melhor_oferta = Some b \<and> site b = u ''Mercado Livre'')"
proof -
  note t = best_deals_per_site_and_overall[of ex_results "u ''tv''" "u ''2024-01-01 10:00:00''"]
  have k: "filter (\<lambda>r. site r = u ''Kabum'') ex_results = []"
    by (simp add: ex_results_def u_def)
  have m: "filter (\<lambda>r. site r = u ''Mercado Livre'') ex_results \<noteq> []"
    by (simp add: ex_results_def u_def)
  have v: "List.map_filter (find_best_deals ex_results) sites \<noteq> []"
    by (simp add: sites_def List.map_filter_simps ex_bd)
  have p: "preco ((ex_results ! 0)\<lparr>cart_link := Some (Some (u ''https://a.example/1''))\<rparr>) = Fin 100"
    "preco ((ex_results ! 2)\<lparr>cart_link := Some (Some (u ''https://b.example/2''))\<rparr>) = Fin 80"
    by (simp_all add: ex_results_def)
  from t k sites_simps(3)
  have 1: "site_entry (find_best_deals ex_results) (u ''Kabum'') = (u ''Kabum'', no_offer)"
    by blast
  from t m sites_simps(2)
  have 2: "\<exists>r. first_min preco (filter (\<lambda>r. site r = u ''Mercado Livre'') ex_results) r \<and>
        find_best_deals ex_results (u ''Mercado Livre'') =
          Some (r\<lparr>cart_link := Some (get_cart_link (link r) (u ''Mercado Livre''))\<rparr>)"
    by blast
  from t v
  have 3: "\<exists>d. first_min preco (List.map_filter (find_best_deals ex_results) sites) d \<and>
        find_best_deals ex_results melhor_oferta = Some d"
    by blast
  from t ex_bd p
  have 4: "\<exists>a b. find_best_deals ex_results (u ''Google Shopping'') = Some a \<and> preco a = Fin 100 \<and>
        find_best_deals ex_results (u ''Mercado Livre'') = Some b \<and> preco b = Fin 80 \<and>
        find_best_deals ex_results (u ''Kabum'') = None \<and>
        find_best_deals ex_results melhor_oferta = Some b \<and> site b = u ''Mercado Livre''"
    by blast
  from k m v 1 2 3 4 show ?thesis by blast
qed

lemma min_from_id_Min: "min_from id b xs = Min (insert b (set xs))"
proof (induction xs arbitrary: b)
  case Nil
  then show ?case by simp
next
  case (Cons x xs)
  have "min_from id b (x # xs) = min_from id (if x < b then x else b) xs"
    by simp
  also have "\<dots> = Min (insert (if x < b then x else b) (set xs))"
    by (rule Cons.IH)
  also have "\<dots> = Min (insert b (set (x # xs)))"
  proof (cases "set xs = {}")
    case True
    then show ?thesis by (auto simp: min_def)
  next
    case False
    then show ?thesis by (auto simp: min_def Min_insert)
  qed
  finally show ?case .
qed

lemma savings_prices:
  "List.map_filter
     (\<lambda>(st, info). case preco_valor info of PInf \<Rightarrow> None
        | Fin p \<Rightarrow> if p > best then Some p else None)
     (map (site_entry bd) ss)
   = List.map_filter (\<lambda>d. case preco d of PInf \<Rightarrow> None | Fin p \<Rightarrow> if best < p then Some p else None)
       (List.map_filter bd ss)"
  by (induction ss)
    (auto simp: site_entry_def no_offer_def List.map_filter_simps split: option.splits price.splits)

lemma calculate_savings_entries:
  "calculate_savings (Fin best) (map (site_entry (find_best_deals results)) sites) =
     (case finite_above results best of
        [] \<Rightarrow> Inr UnicoPreco
      | p # ps \<Rightarrow>
          if Min (set (p # ps)) = 0 then Inl ZeroDivisionError
          else Inr (Economia (Min (set (p # ps)) - best)
                 ((Min (set (p # ps)) - best) / Min (set (p # ps)) * 100)))"
proof -
  have "List.map_filter
     (\<lambda>(st, info). case preco_valor info of PInf \<Rightarrow> None
        | Fin p \<Rightarrow> if p > best then Some p else None)
     (map (site_entry (find_best_deals results)) sites) = finite_above results best"
    unfolding finite_above_def by (rule savings_prices)
  then show ?thesis
    unfolding calculate_savings_def
    by (simp add: Let_def min_from_id_Min split: list.splits)
qed

lemma calculate_savings_PInf: "calculate_savings PInf rs = Inr UnicoPreco"
  by (simp add: calculate_savings_def)

lemma format_results_best:
  assumes "format_results bd q ts = Inr out" and "best_overall out = Some bo"
  shows "\<exists>best. bd melhor_oferta = Some best \<and> bo_preco_valor bo = preco best \<and>
           bo_site bo = site best \<and>
           calculate_savings (preco best) (map (site_entry bd) sites) = Inr (economia bo)"
  using assms
  by (auto simp: format_results_def Let_def split: option.splits sum.splits)

lemma format_results_entries:
  "format_results bd q ts = Inr out \<Longrightarrow> out_results out = map (site_entry bd) sites"
  by (auto simp: format_results_def Let_def split: option.splits sum.splits)

lemma format_results_none:
  "format_results bd q ts = Inr out \<Longrightarrow> (best_overall out = None) = (bd melhor_oferta = None)"
  by (auto simp: format_results_def Let_def split: option.splits sum.splits)

lemma first_min_le: "first_min k xs x \<Longrightarrow> y \<in> set xs \<Longrightarrow> k x \<le> k y"
proof -
  assume "first_min k xs x" and y: "y \<in> set xs"
  then obtain pre post where "xs = pre @ x # post"
    "\<forall>y\<in>set pre. k x < k y" "\<forall>y\<in>set post. k x \<le> k y"
    unfolding first_min_def by blast
  with y show ?thesis by (auto simp: less_le)
qed

lemma site_best_None: "(site_best results st = None) = (filter (\<lambda>r. site r = st) results = [])"
  by (simp add: site_best_def split: list.splits)

lemma site_best_price: "site_best results st = Some d \<Longrightarrow> \<exists>r\<in>set results. preco d = preco r"
proof -
  assume "site_best results st = Some d"
  then obtain r rs where f: "filter (\<lambda>r. site r = st) results = r # rs"
    and d: "preco d = preco (min_from preco r rs)"
    by (auto simp: site_best_def split: list.splits)
  have "first_min preco (r # rs) (min_from preco r rs)" by (rule min_from_first_min)
  then have "min_from preco r rs \<in> set (filter (\<lambda>r. site r = st) results)"
    unfolding f by (rule first_min_mem)
  then show ?thesis using d by auto
qed

lemma valid_deals_Nil:
  "(List.map_filter (find_best_deals results) sites = []) =
     (\<forall>st\<in>set sites. find_best_deals results st = None)"
  by (auto simp: List.map_filter_def filter_empty_conv)

lemma map_of_site_entries:
  "st \<in> set ss \<Longrightarrow> map_of (map (site_entry bd) ss) st = Some (snd (site_entry bd st))"
  by (induction ss) (auto simp: fst_site_entry)

lemma site_entry_no_offer: "(snd (site_entry bd st) = no_offer) = (bd st = None)"
  by (auto simp: site_entry_def no_offer_def split: option.splits)

lemma set_map_filter: "set (List.map_filter f xs) = {y. \<exists>x\<in>set xs. f x = Some y}"
  by (induction xs) (auto split: option.splits)

lemma deal_price:
  assumes "d \<in> set (List.map_filter (find_best_deals results) sites)"
  shows "\<exists>r\<in>set results. preco d = preco r"
proof -
  from assms obtain st where "st \<in> set sites" "find_best_deals results st = Some d"
    by (auto simp: set_map_filter)
  then show ?thesis
    by (auto simp: find_best_deals_site intro: site_best_price)
qed

lemma best_deal_mem:
  assumes "find_best_deals results melhor_oferta = Some best"
  shows "best \<in> set (List.map_filter (find_best_deals results) sites)"
proof -
  from assms obtain d ds where v: "List.map_filter (find_best_deals results) sites = d # ds"
    and b: "best = min_from preco d ds"
    by (auto simp: find_best_deals_overall split: list.splits)
  have "first_min preco (d # ds) (min_from preco d ds)" by (rule min_from_first_min)
  then show ?thesis unfolding v b by (rule first_min_mem)
qed

lemma finite_above_mem:
  assumes "x \<in> set (finite_above results best)"
  shows "\<exists>d\<in>set (List.map_filter (find_best_deals results) sites). preco d = Fin x \<and> best < x"
proof -
  let ?f = "\<lambda>d. case preco d of PInf \<Rightarrow> None | Fin p \<Rightarrow> if best < p then Some p else None"
  from assms obtain d where d: "d \<in> set (List.map_filter (find_best_deals results) sites)"
    and f: "?f d = Some x"
    unfolding finite_above_def set_map_filter[of ?f] by blast
  from f have "preco d = Fin x \<and> best < x"
    by (cases "preco d") (auto split: if_splits)
  with d show ?thesis by blast
qed

lemma finite_above_map:
  assumes "\<forall>d\<in>set ds. preco d \<noteq> PInf"
  shows "map Fin (List.map_filter
           (\<lambda>d. case preco d of PInf \<Rightarrow> None | Fin p \<Rightarrow> if best < p then Some p else None) ds)
         = [preco d. d \<leftarrow> ds, Fin best < preco d]"
  using assms
proof (induction ds)
  case Nil
  then show ?case by (simp add: List.map_filter_simps)
next
  case (Cons d ds)
  then obtain p where p: "preco d = Fin p" by (cases "preco d") auto
  from Cons have "map Fin (List.map_filter
           (\<lambda>d. case preco d of PInf \<Rightarrow> None | Fin p \<Rightarrow> if best < p then Some p else None) ds)
         = [preco d. d \<leftarrow> ds, Fin best < preco d]"
    by simp
  then show ?case using p by (simp add: List.map_filter_simps less_price_def)
qed

lemma finite_above_higher:
  assumes "\<forall>r\<in>set results. preco r \<noteq> PInf"
  shows "map Fin (finite_above results best) = higher_prices results (Fin best)"
  unfolding finite_above_def higher_prices_def
proof (rule finite_above_map)
  show "\<forall>d\<in>set (List.map_filter (find_best_deals results) sites). preco d \<noteq> PInf"
  proof
    fix d assume "d \<in> set (List.map_filter (find_best_deals results) sites)"
    from deal_price[OF this] obtain r where "r \<in> set results" "preco d = preco r" by blast
    with assms show "preco d \<noteq> PInf" by simp
  qed
qed

lemma Min_Fin: "xs \<noteq> [] \<Longrightarrow> Min (set (map Fin xs)) = Fin (Min (set xs))"
proof -
  assume ne: "xs \<noteq> []"
  have "mono Fin" by (rule monoI) simp
  from mono_Min_commute[OF this, of "set xs"] ne show ?thesis by simp
qed

text \<open>
  Claim C3, as the code has it. For every formatted result with a best offer, made of
  scraped products whose prices are all finite, the savings are the difference between
  the lowest best price of a site that is strictly above the price of the best offer
  and that price, with the percentage of the higher price; when no site has a best
  price strictly above it, the text for a single price is reported. \<open>higher_prices\<close>
  lists the best prices of the sites above a price. A site whose best price equals the
  best price overall is therefore no runner-up.
\<close>

theorem savings_against_next_higher_price:
  assumes "format_results (find_best_deals results) q ts = Inr out"
    and "best_overall out = Some bo"
    and "\<forall>r\<in>set results. preco r \<noteq> PInf"
  shows "(higher_prices results (bo_preco_valor bo) = [] \<longrightarrow> economia bo = UnicoPreco) \<and>
         (higher_prices results (bo_preco_valor bo) \<noteq> [] \<longrightarrow>
            (\<exists>b s. bo_preco_valor bo = Fin b \<and>
               Min (set (higher_prices results (bo_preco_valor bo))) = Fin s \<and>
               economia bo = Economia (s - b) ((s - b) / s * 100)))"
proof -
  from format_results_best[OF assms(1,2)] obtain best where
    m: "find_best_deals results melhor_oferta = Some best"
    and b: "bo_preco_valor bo = preco best"
    and c: "calculate_savings (preco best) (map (site_entry (find_best_deals results)) sites)
              = Inr (economia bo)"
    by blast
  from deal_price[OF best_deal_mem[OF m]] obtain r where "r \<in> set results" "preco best = preco r"
    by blast
  with assms(3) have "preco best \<noteq> PInf" by simp
  then obtain v where v: "preco best = Fin v"
    by (cases "preco best") simp_all
  have h: "higher_prices results (Fin v) = map Fin (finite_above results v)"
    by (rule finite_above_higher[OF assms(3), symmetric])
  show ?thesis
  proof (cases "finite_above results v")
    case Nil
    then show ?thesis
      using c unfolding b v h calculate_savings_entries by simp
  next
    case (Cons p ps)
    then have ne: "finite_above results v \<noteq> []" by simp
    have e: "economia bo = Economia (Min (set (p # ps)) - v)
        ((Min (set (p # ps)) - v) / Min (set (p # ps)) * 100)"
      using c unfolding v calculate_savings_entries Cons
      by (auto split: if_splits)
    have "Min (set (higher_prices results (Fin v))) = Fin (Min (set (p # ps)))"
      unfolding h using Min_Fin[OF ne] Cons by simp
    with e show ?thesis
      unfolding b v h using ne by simp
  qed
qed

lemma entry_price:
  "(\<lambda>(st, info). preco_valor info) (site_entry bd st) =
     (case bd st of None \<Rightarrow> PInf | Some d \<Rightarrow> preco d)"
  by (simp add: site_entry_def no_offer_def split: option.splits)

lemma entry_prices:
  "set (map (\<lambda>(st, info). preco_valor info) (map (site_entry bd) ss)) =
     (\<lambda>st. case bd st of None \<Rightarrow> PInf | Some d \<Rightarrow> preco d) ` set ss"
proof -
  have "set (map (\<lambda>(st, info). preco_valor info) (map (site_entry bd) ss)) =
      (\<lambda>st. (\<lambda>(st, info). preco_valor info) (site_entry bd st)) ` set ss"
    by (simp add: image_image)
  then show ?thesis unfolding entry_price .
qed

lemma le_PInf: "(p::price) \<le> PInf"
  by (cases p) simp_all

lemma best_price_is_Min:
  assumes "find_best_deals results melhor_oferta = Some best"
  shows "preco best =
     Min (set (map (\<lambda>(st, info). preco_valor info)
        (map (site_entry (find_best_deals results)) sites)))"
proof -
  let ?bd = "find_best_deals results"
  let ?v = "List.map_filter ?bd sites"
  from assms obtain d ds where v: "?v = d # ds" and b: "best = min_from preco d ds"
    by (auto simp: find_best_deals_overall split: list.splits)
  have fm: "first_min preco ?v best"
    unfolding v b by (rule min_from_first_min)
  then have "best \<in> set ?v" by (rule first_min_mem)
  then obtain sb where sb: "sb \<in> set sites" "?bd sb = Some best"
    by (auto simp: set_map_filter)
  have le: "preco best \<le> preco x" if "x \<in> set ?v" for x
    using fm that by (rule first_min_le)
  show ?thesis
    unfolding entry_prices
  proof (rule Min_eqI[symmetric])
    show "finite ((\<lambda>st. case ?bd st of None \<Rightarrow> PInf | Some d \<Rightarrow> preco d) ` set sites)"
      by simp
    show "preco best \<in> (\<lambda>st. case ?bd st of None \<Rightarrow> PInf | Some d \<Rightarrow> preco d) ` set sites"
      using sb by (auto simp: image_iff intro!: bexI[of _ sb])
    fix y assume "y \<in> (\<lambda>st. case ?bd st of None \<Rightarrow> PInf | Some d \<Rightarrow> preco d) ` set sites"
    then obtain st where st: "st \<in> set sites"
      and y: "y = (case ?bd st of None \<Rightarrow> PInf | Some d \<Rightarrow> preco d)"
      by auto
    show "preco best \<le> y"
    proof (cases "?bd st")
      case None
      then show ?thesis using y by (simp add: le_PInf)
    next
      case (Some x)
      then have "x \<in> set ?v" using st by (auto simp: set_map_filter)
      then show ?thesis using y Some le by simp
    qed
  qed
qed

lemma format_results_total:
  assumes pos: "\<forall>r\<in>set results. Fin 0 < preco r"
  shows "\<exists>out. format_results (find_best_deals results) q ts = Inr out"
proof (cases "find_best_deals results melhor_oferta")
  case None
  then show ?thesis by (simp add: format_results_def)
next
  case (Some best)
  have "\<exists>sv. calculate_savings (preco best)
      (map (site_entry (find_best_deals results)) sites) = Inr sv"
  proof (cases "preco best")
    case PInf
    then show ?thesis by (simp add: calculate_savings_PInf)
  next
    case (Fin v)
    show ?thesis
    proof (cases "finite_above results v")
      case Nil
      then show ?thesis unfolding Fin by (simp add: calculate_savings_entries)
    next
      case (Cons p ps)
      have "Min (set (p # ps)) \<in> set (p # ps)" by (rule Min_in) simp_all
      then have "Min (set (p # ps)) \<in> set (finite_above results v)"
        unfolding Cons .
      from finite_above_mem[OF this] obtain d
        where "d \<in> set (List.map_filter (find_best_deals results) sites)"
          and m: "preco d = Fin (Min (set (p # ps)))"
        by blast
      from deal_price[OF this(1)] obtain r where r: "r \<in> set results" "preco d = preco r"
        by blast
      from pos r(1) have "Fin 0 < preco r" by blast
      then have "Fin 0 < Fin (Min (set (p # ps)))" unfolding r(2)[symmetric] m .
      then have "0 < Min (set (p # ps))" by (simp only: price_less)
      then have "0 \<noteq> Min (set (p # ps))" by (rule less_imp_neq)
      then have "Min (set (p # ps)) \<noteq> 0" by (rule not_sym)
      then show ?thesis unfolding Fin by (simp add: calculate_savings_entries Cons)
    qed
  qed
  then show ?thesis using Some by (auto simp: format_results_def Let_def)
qed

text \<open>
  Claim C2. Formatting the deals of a list of scraped products succeeds whenever all
  prices are positive, as those of scraped products are. In every formatted result
  \<open>best_overall\<close> is \<open>None\<close> exactly when none of the sites has a product, which is
  exactly when every site has the entry \<open>no_offer\<close>; and when \<open>best_overall\<close> is
  there, its price is the minimum of the values \<open>preco_valor\<close> of the three entries,
  where the entry of a site without offer has the value \<open>PInf\<close>.
\<close>

theorem best_overall_null_iff_no_offers_and_min_price:
  "((\<forall>r\<in>set results. Fin 0 < preco r) \<longrightarrow>
      (\<exists>out. format_results (find_best_deals results) q ts = Inr out)) \<and>
   (\<forall>out. format_results (find_best_deals results) q ts = Inr out \<longrightarrow>
      (best_overall out = None \<longleftrightarrow>
         (\<forall>st\<in>set sites. filter (\<lambda>r. site r = st) results = [])) \<and>
      (best_overall out = None \<longleftrightarrow>
         (\<forall>st\<in>set sites. map_of (out_results out) st = Some no_offer)) \<and>
      (\<forall>bo. best_overall out = Some bo \<longrightarrow>
         bo_preco_valor bo =
           Min (set (map (\<lambda>(st, info). preco_valor info) (out_results out)))))"
proof (intro conjI allI impI)
  assume "\<forall>r\<in>set results. Fin 0 < preco r"
  then show "\<exists>out. format_results (find_best_deals results) q ts = Inr out"
    by (rule format_results_total)
next
  fix out assume f: "format_results (find_best_deals results) q ts = Inr out"
  have n: "(best_overall out = None) = (\<forall>st\<in>set sites. find_best_deals results st = None)"
    unfolding format_results_none[OF f] valid_deals_Nil[symmetric]
    by (simp add: find_best_deals_overall split: list.splits)
  show "best_overall out = None \<longleftrightarrow> (\<forall>st\<in>set sites. filter (\<lambda>r. site r = st) results = [])"
    unfolding n by (simp add: find_best_deals_site site_best_None)
  show "best_overall out = None \<longleftrightarrow> (\<forall>st\<in>set sites. map_of (out_results out) st = Some no_offer)"
    unfolding n format_results_entries[OF f]
    by (simp add: map_of_site_entries site_entry_no_offer)
next
  fix out bo
  assume f: "format_results (find_best_deals results) q ts = Inr out"
    and b: "best_overall out = Some bo"
  from format_results_best[OF f b] obtain best where
    "find_best_deals results melhor_oferta = Some best" "bo_preco_valor bo = preco best"
    by blast
  then show "bo_preco_valor bo =
      Min (set (map (\<lambda>(st, info). preco_valor info) (out_results out)))"
    unfolding format_results_entries[OF f] using best_price_is_Min by simp
qed

lemma ex_format:
  "\<exists>out bo. format_results (find_best_deals ex_results) (u ''tv'') (u ''2024-01-01 10:00:00'') = Inr out \<and>
     best_overall out = Some bo \<and> bo_preco_valor bo = Fin 80"
proof -
  have "(case format_results (find_best_deals ex_results) (u ''tv'') (u ''2024-01-01 10:00:00'') of
      Inl e \<Rightarrow> None | Inr out \<Rightarrow> map_option bo_preco_valor (best_overall out)) = Some (Fin 80)"
    by code_simp
  then show ?thesis by (auto split: sum.splits)
qed

lemma ex_higher: "higher_prices ex_results (Fin 80) = [Fin 100]"
  by code_simp

lemma ex_finite: "\<forall>r\<in>set ex_results. preco r \<noteq> PInf"
  by (simp add: ex_results_def)

text \<open>The theorem at \<open>ex_results\<close>, whose prices are positive.\<close>

theorem best_overall_null_iff_no_offers_and_min_price_witness:
  "list_all (\<lambda>r. Fin 0 < preco r) ex_results \<and>
   (\<exists>out bo. format_results (find_best_deals ex_results) (u ''tv'') (u ''2024-01-01 10:00:00'') = Inr out \<and>
      best_overall out = Some bo \<and>
      \<not> (\<forall>st\<in>set sites. filter (\<lambda>r. site r = st) ex_results = []) \<and>
      \<not> (\<forall>st\<in>set sites. map_of (out_results out) st = Some no_offer) \<and>
      bo_preco_valor bo =
        Min (set (map (\<lambda>(st, info). preco_valor info) (out_results out))))"
proof -
  note t = best_overall_null_iff_no_offers_and_min_price
    [of ex_results "u ''tv''" "u ''2024-01-01 10:00:00''"]
  have pos: "\<forall>r\<in>set ex_results. Fin 0 < preco r"
    by (simp add: ex_results_def less_price_def)
  with t obtain out where
    out: "format_results (find_best_deals ex_results) (u ''tv'') (u ''2024-01-01 10:00:00'') = Inr out"
    by blast
  have ne: "\<not> (\<forall>st\<in>set sites. filter (\<lambda>r. site r = st) ex_results = [])"
    by (simp add: sites_def ex_results_def u_def)
  with t out have "best_overall out \<noteq> None" by blast
  then obtain bo where bo: "best_overall out = Some bo" by auto
  from t out bo
  have "\<not> (\<forall>st\<in>set sites. map_of (out_results out) st = Some no_offer)"
    and "bo_preco_valor bo =
        Min (set (map (\<lambda>(st, info). preco_valor info) (out_results out)))"
    by auto
  moreover have "list_all (\<lambda>r. Fin 0 < preco r) ex_results"
    using pos by (simp add: list_all_iff)
  ultimately show ?thesis using out bo ne by blast
qed

text \<open>
  The theorem at \<open>ex_results\<close>, whose prices are finite: the best offer costs 80, the
  only higher price is 100, the savings are 20, which is 20 per cent of 100.
\<close>

theorem savings_against_next_higher_price_witness:
  "list_all (\<lambda>r. preco r \<noteq> PInf) ex_results \<and>
   (\<exists>out bo. format_results (find_best_deals ex_results) (u ''tv'') (u ''2024-01-01 10:00:00'') = Inr out \<and>
     best_overall out = Some bo \<and>
     higher_prices ex_results (bo_preco_valor bo) \<noteq> [] \<and>
     bo_preco_valor bo = Fin 80 \<and>
     Min (set (higher_prices ex_results (bo_preco_valor bo))) = Fin 100 \<and>
     economia bo = Economia 20 20)"
proof -
  from ex_format obtain out bo where
    out: "format_results (find_best_deals ex_results) (u ''tv'') (u ''2024-01-01 10:00:00'') = Inr out"
    and bo: "best_overall out = Some bo" and p: "bo_preco_valor bo = Fin 80"
    by blast
  from savings_against_next_higher_price[OF out bo ex_finite]
  have "\<exists>b s. Fin 80 = Fin b \<and> Min (set [Fin 100]) = Fin s \<and>
      economia bo = Economia (s - b) ((s - b) / s * 100)"
    unfolding p ex_higher by simp
  then have "economia bo = Economia 20 20" by auto
  with out bo p ex_finite show ?thesis by (auto simp: ex_higher list_all_iff)
qed

text \<open>
  Claim C3 as it is written fails when two sites share the lowest price: with 80 at
  Google Shopping and 80 at Mercado Livre two sites have an offer and the runner-up
  costs 80, a difference of 0, but the code reports the text for a single price.
\<close>

theorem savings_tie_counterexample:
  "map_option preco (find_best_deals tie_results (u ''Google Shopping'')) = Some (Fin 80) \<and>
   map_option preco (find_best_deals tie_results (u ''Mercado Livre'')) = Some (Fin 80) \<and>
   map_option site (find_best_deals tie_results melhor_oferta) = Some (u ''Google Shopping'') \<and>
   (case format_results (find_best_deals tie_results) (u ''tv'') (u ''2024-01-01 10:00:00'') of
      Inl e \<Rightarrow> None | Inr out \<Rightarrow> map_option economia (best_overall out)) = Some UnicoPreco"
  by code_simp

text \<open>
  The prices have to be finite. A text of 309 digits is a price of \<^verbatim>\<open>inf\<close>, which
  \<^verbatim>\<open>_calculate_savings\<close> leaves out as it does the value of a site without an offer:
  with 80 at Google Shopping and \<^verbatim>\<open>inf\<close> at Mercado Livre the best price of Mercado
  Livre is above 80 and the text for a single price is reported.
\<close>

lemma savings_infinite_price_example:
  "map_option preco (find_best_deals inf_results (u ''Mercado Livre'')) = Some PInf \<and>
   higher_prices inf_results (Fin 80) = [PInf] \<and>
   (case format_results (find_best_deals inf_results) (u ''tv'') (u ''2024-01-01 10:00:00'') of
      Inl e \<Rightarrow> None | Inr out \<Rightarrow> map_option economia (best_overall out)) = Some UnicoPreco"
  by code_simp

section \<open>Properties of the price normalizers\<close>

lemma rfind_snoc: "rfind (s @ [x]) c = (if x = c then int (length s) else rfind s c)"
proof (cases "x = c")
  case True
  then show ?thesis by (simp add: rfind_def)
next
  case False
  show ?thesis
  proof (cases "c \<in> set s")
    case True
    then show ?thesis using False by (simp add: rfind_def)
  next
    case n: False
    then show ?thesis using False by (simp add: rfind_def)
  qed
qed

lemma rfind_less: "rfind s c < int (length s)"
  by (simp add: rfind_def)

lemma rfind_ge: "- 1 \<le> rfind s c"
proof (induction s rule: rev_induct)
  case Nil
  then show ?case by (simp add: rfind_def)
next
  case (snoc x xs)
  then show ?case by (simp add: rfind_snoc)
qed

lemma rfind_notin: "c \<notin> set s \<Longrightarrow> rfind s c = - 1"
  by (simp add: rfind_def)

lemma rfind_in: "c \<in> set s \<Longrightarrow> 0 \<le> rfind s c"
proof (induction s rule: rev_induct)
  case Nil
  then show ?case by simp
next
  case (snoc x xs)
  then show ?case by (auto simp: rfind_snoc)
qed

lemma comma_last_iff:
  "(rfind s 44 > rfind s 46) = (filter is_sep s \<noteq> [] \<and> last (filter is_sep s) = 44)"
proof (induction s rule: rev_induct)
  case Nil
  then show ?case by (simp add: rfind_def)
next
  case (snoc x xs)
  consider "x = 44" | "x = 46" | "x \<noteq> 44" "x \<noteq> 46" by blast
  then show ?case
  proof cases
    case 1
    then show ?thesis using rfind_less[of xs 46] by (simp add: rfind_snoc is_sep_def)
  next
    case 2
    then show ?thesis using rfind_less[of xs 44] by (simp add: rfind_snoc is_sep_def)
  next
    case 3
    then show ?thesis using snoc by (simp add: rfind_snoc is_sep_def)
  qed
qed

lemma dot_last_iff:
  "(rfind s 46 > rfind s 44) = (filter is_sep s \<noteq> [] \<and> last (filter is_sep s) = 46)"
proof (induction s rule: rev_induct)
  case Nil
  then show ?case by (simp add: rfind_def)
next
  case (snoc x xs)
  consider "x = 44" | "x = 46" | "x \<noteq> 44" "x \<noteq> 46" by blast
  then show ?case
  proof cases
    case 1
    then show ?thesis using rfind_less[of xs 46] by (simp add: rfind_snoc is_sep_def)
  next
    case 2
    then show ?thesis using rfind_less[of xs 44] by (simp add: rfind_snoc is_sep_def)
  next
    case 3
    then show ?thesis using snoc by (simp add: rfind_snoc is_sep_def)
  qed
qed

lemma decimal_separator_comma:
  assumes "44 \<notin> set fr" "46 \<notin> set fr"
  shows "decimal_separator (pre @ 44 # fr) =
           map comma_to_dot (filter (\<lambda>c. c \<noteq> 46) pre) @ 46 # fr"
proof -
  have f: "filter is_sep fr = []"
    using assms by (auto simp: filter_empty_conv is_sep_def)
  have "rfind (pre @ 44 # fr) 44 > rfind (pre @ 44 # fr) 46"
    unfolding comma_last_iff by (simp add: f is_sep_def)
  moreover have "filter (\<lambda>c. c \<noteq> 46) fr = fr"
    using assms by (auto simp: filter_id_conv)
  moreover have "map (\<lambda>c. if c = 44 then 46 else c) fr = fr"
    using assms by (auto intro: map_idI)
  ultimately show ?thesis
    by (simp add: decimal_separator_def Let_def comma_to_dot_def)
qed

lemma decimal_separator_dot:
  assumes "44 \<notin> set fr" "46 \<notin> set fr"
  shows "decimal_separator (pre @ 46 # fr) = filter (\<lambda>c. c \<noteq> 44) pre @ 46 # fr"
proof -
  have f: "filter is_sep fr = []"
    using assms by (auto simp: filter_empty_conv is_sep_def)
  have "\<not> rfind (pre @ 46 # fr) 44 > rfind (pre @ 46 # fr) 46"
    unfolding comma_last_iff by (simp add: f is_sep_def)
  moreover have "filter (\<lambda>c. c \<noteq> 44) fr = fr"
    using assms by (auto simp: filter_id_conv)
  ultimately show ?thesis
    by (simp add: decimal_separator_def Let_def)
qed

lemma filter_dropWhile_disjoint:
  "(\<And>c. P c \<Longrightarrow> \<not> Q c) \<Longrightarrow> filter P (dropWhile Q xs) = filter P xs"
  by (induction xs) auto

lemma strip_currency_cases:
  "strip_currency (82 # 36 # ds) = strip_currency (dropWhile is_space ds)"
  "c = 36 \<or> c = 8364 \<or> c = 163 \<Longrightarrow>
     strip_currency (c # cs) = strip_currency (dropWhile is_space cs)"
  "\<not> (c = 82 \<and> cs \<noteq> [] \<and> hd cs = 36) \<Longrightarrow> c \<noteq> 36 \<Longrightarrow> c \<noteq> 8364 \<Longrightarrow> c \<noteq> 163 \<Longrightarrow>
     strip_currency (c # cs) = c # strip_currency cs"
  by auto

lemma filter_strip_currency:
  assumes "\<And>c. P c \<Longrightarrow> \<not> is_space c \<and> c \<noteq> 82 \<and> c \<noteq> 36 \<and> c \<noteq> 8364 \<and> c \<noteq> 163"
  shows "filter P (strip_currency s) = filter P s"
proof (induction s rule: strip_currency.induct)
  case 1
  then show ?case by simp
next
  case (2 c cs)
  have dw: "filter P (dropWhile is_space xs) = filter P xs" for xs
    by (rule filter_dropWhile_disjoint) (use assms in blast)
  have np: "\<not> P 82" "\<not> P 36" "\<not> P 8364" "\<not> P 163" using assms by blast+
  consider (a) "c = 82 \<and> cs \<noteq> [] \<and> hd cs = 36"
    | (b) "\<not> (c = 82 \<and> cs \<noteq> [] \<and> hd cs = 36)" "c = 36 \<or> c = 8364 \<or> c = 163"
    | (c) "\<not> (c = 82 \<and> cs \<noteq> [] \<and> hd cs = 36)" "\<not> (c = 36 \<or> c = 8364 \<or> c = 163)"
    by blast
  then show ?case
  proof cases
    case a
    then obtain ds where cs: "cs = 36 # ds" by (cases cs) auto
    from 2(1)[OF a] have "filter P (strip_currency (dropWhile is_space ds)) = filter P ds"
      by (simp add: cs dw)
    then show ?thesis
      using a np unfolding cs by (simp only: strip_currency_cases(1)) simp
  next
    case b
    from 2(2)[OF b] have "filter P (strip_currency (dropWhile is_space cs)) = filter P cs"
      by (simp add: dw)
    moreover have "\<not> P c" using b(2) np by blast
    ultimately show ?thesis
      by (simp only: strip_currency_cases(2)[OF b(2)]) simp
  next
    case c
    from 2(3)[OF c] have "filter P (strip_currency cs) = filter P cs" .
    moreover have "strip_currency (c # cs) = c # strip_currency cs"
      using c by (intro strip_currency_cases(3)) blast+
    ultimately show ?thesis by simp
  qed
qed

lemma filter_py_strip:
  assumes "\<And>c. P c \<Longrightarrow> \<not> is_space c"
  shows "filter P (py_strip s) = filter P s"
proof -
  have "filter P (py_strip s) = rev (filter P (dropWhile is_space (rev (dropWhile is_space s))))"
    by (simp add: py_strip_def rev_filter)
  also have "\<dots> = rev (filter P (rev (dropWhile is_space s)))"
    using assms by (simp add: filter_dropWhile_disjoint)
  also have "\<dots> = filter P (dropWhile is_space s)"
    by (simp add: rev_filter)
  also have "\<dots> = filter P s"
    using assms by (simp add: filter_dropWhile_disjoint)
  finally show ?thesis .
qed

lemma set_strip_currency: "set (strip_currency s) \<subseteq> set s"
proof (induction s rule: strip_currency.induct)
  case 1
  then show ?case by simp
next
  case (2 c cs)
  consider (a) "c = 82 \<and> cs \<noteq> [] \<and> hd cs = 36"
    | (b) "\<not> (c = 82 \<and> cs \<noteq> [] \<and> hd cs = 36)" "c = 36 \<or> c = 8364 \<or> c = 163"
    | (c) "\<not> (c = 82 \<and> cs \<noteq> [] \<and> hd cs = 36)" "\<not> (c = 36 \<or> c = 8364 \<or> c = 163)"
    by blast
  then show ?case
  proof cases
    case a
    then obtain ds where cs: "cs = 36 # ds" by (cases cs) auto
    have "set (dropWhile is_space ds) \<subseteq> set ds" by (auto dest: set_dropWhileD)
    with 2(1)[OF a] have "set (strip_currency (dropWhile is_space ds)) \<subseteq> set ds"
      unfolding cs by auto
    then show ?thesis
      using a unfolding cs by (simp only: strip_currency_cases(1)) auto
  next
    case b
    have "set (dropWhile is_space cs) \<subseteq> set cs" by (auto dest: set_dropWhileD)
    with 2(2)[OF b] have "set (strip_currency (dropWhile is_space cs)) \<subseteq> set cs"
      by blast
    then show ?thesis
      by (simp only: strip_currency_cases(2)[OF b(2)]) auto
  next
    case c
    from 2(3)[OF c] have "set (strip_currency cs) \<subseteq> set cs" .
    moreover have "strip_currency (c # cs) = c # strip_currency cs"
      using c by (intro strip_currency_cases(3)) blast+
    ultimately show ?thesis by auto
  qed
qed

lemma set_py_strip: "set (py_strip s) \<subseteq> set s"
  unfolding py_strip_def by (auto dest!: set_dropWhileD)

lemma set_cut_qualifier: "set (cut_qualifier s) \<subseteq> set s"
  by (induction s) auto

lemma cut_qualifier_no_space: "(\<forall>c\<in>set s. \<not> is_space c) \<Longrightarrow> cut_qualifier s = s"
  by (induction s) auto

lemma dropWhile_none: "(\<forall>c\<in>set s. \<not> P c) \<Longrightarrow> dropWhile P s = s"
  by (cases s) auto

lemma py_strip_no_space: "(\<forall>c\<in>set s. \<not> is_space c) \<Longrightarrow> py_strip s = s"
  by (simp add: py_strip_def dropWhile_none)

lemma strip_currency_id:
  "(\<forall>c\<in>set s. c \<noteq> 36 \<and> c \<noteq> 8364 \<and> c \<noteq> 163) \<Longrightarrow> strip_currency s = s"
proof (induction s)
  case Nil
  then show ?case by simp
next
  case (Cons c cs)
  then have "\<not> (c = 82 \<and> cs \<noteq> [] \<and> hd cs = 36)"
    by (cases cs) auto
  then have "strip_currency (c # cs) = c # strip_currency cs"
    using Cons.prems by (intro strip_currency_cases(3)) auto
  then show ?case using Cons by simp
qed

lemma is_digit_bounds:
  assumes "is_digit c"
  shows "(48 \<le> c \<and> c \<le> 57) \<or> (1632 \<le> c \<and> c \<le> 4249) \<or> (6112 \<le> c \<and> c \<le> 7257) \<or>
    42528 \<le> c"
proof -
  from assms obtain z where z: "z \<in> set digit_zeros" and c: "z \<le> c" "c \<le> z + 9"
    by (auto simp: is_digit_def)
  from z have "z = 48 \<or> (1632 \<le> z \<and> z \<le> 4240) \<or> (6112 \<le> z \<and> z \<le> 7248) \<or> 42528 \<le> z"
    unfolding digit_zeros_def by (elim set_ConsD[elim_format] disjE) simp_all
  with c show ?thesis by linarith
qed

lemma digit_facts:
  "is_digit c \<Longrightarrow> \<not> is_space c" "is_digit c \<Longrightarrow> c \<noteq> 44" "is_digit c \<Longrightarrow> c \<noteq> 46"
  "is_digit c \<Longrightarrow> c \<noteq> 36" "is_digit c \<Longrightarrow> c \<noteq> 8364" "is_digit c \<Longrightarrow> c \<noteq> 163"
  "is_digit c \<Longrightarrow> c \<noteq> 82"
  "\<not> is_space 44" "\<not> is_space 46" "\<not> is_digit 44" "\<not> is_digit 46"
  using is_digit_bounds[of c] is_digit_bounds[of 44] is_digit_bounds[of 46]
  by (auto simp: is_space_def)

lemma non_digits:
  "\<not> is_digit 44" "\<not> is_digit 46" "\<not> is_digit 36" "\<not> is_digit 8364" "\<not> is_digit 163"
  "\<not> is_digit 82"
  using digit_facts by blast+

lemma numeral_text_prefix:
  assumes "numeral_text s"
  shows "cut_qualifier (py_strip (strip_currency s)) = s"
proof -
  have 1: "strip_currency s = s"
    by (rule strip_currency_id) (use assms in \<open>auto simp: numeral_text_def non_digits\<close>)
  have ns: "\<forall>c\<in>set s. \<not> is_space c"
    using assms by (auto simp: numeral_text_def digit_facts)
  show ?thesis
    by (simp add: 1 py_strip_no_space[OF ns] cut_qualifier_no_space[OF ns])
qed

lemma set_decimal_separator:
  "c \<in> set (decimal_separator s) \<Longrightarrow> c = 46 \<or> c \<in> set s"
  by (auto simp: decimal_separator_def Let_def split: if_splits)

lemma decimal_separator_no_comma: "44 \<notin> set (decimal_separator s)"
  by (auto simp: decimal_separator_def Let_def split: if_splits)

lemma py_float_dots:
  assumes "\<forall>c\<in>set s. c = 46"
  shows "py_float s = None"
proof (cases s)
  case Nil
  then show ?thesis by (simp add: py_float_def)
next
  case (Cons a as)
  then have a: "a = 46" and as: "\<forall>c\<in>set as. c = 46" using assms by auto
  show ?thesis
  proof (cases as)
    case Nil
    then show ?thesis using Cons a by (simp add: py_float_def)
  next
    case c: (Cons b bs)
    then have "b = 46" using as by simp
    then show ?thesis using Cons a c by (simp add: py_float_def Let_def digit_facts)
  qed
qed

lemma py_float_parts:
  assumes "\<forall>c\<in>set ip. is_digit c" "\<forall>c\<in>set fp. is_digit c" "ip @ fp \<noteq> []"
  shows "py_float (ip @ 46 # fp) = Some (decimal_value ip fp)"
proof -
  have "takeWhile (\<lambda>c. c \<noteq> 46) (ip @ 46 # fp) = ip"
    using assms(1) by (simp add: takeWhile_append2 digit_facts)
  moreover have "dropWhile (\<lambda>c. c \<noteq> 46) (ip @ 46 # fp) = 46 # fp"
    using assms(1) by (simp add: dropWhile_append2 digit_facts)
  ultimately show ?thesis
    using assms by (simp add: py_float_def decimal_value_def)
qed

lemma server_format_price_numeral:
  assumes "numeral_text s"
  shows "server_format_price s = py_float (decimal_separator s)"
proof (cases "s = []")
  case True
  then show ?thesis
    by (simp add: server_format_price_def decimal_separator_def py_float_def rfind_def)
next
  case False
  have "is_digit c \<or> c = 46" if "c \<in> set (decimal_separator s)" for c
    using set_decimal_separator[OF that] decimal_separator_no_comma[of s] that assms
    by (auto simp: numeral_text_def)
  then have "filter (\<lambda>c. is_digit c \<or> c = 46) (decimal_separator s) = decimal_separator s"
    by (auto simp: filter_id_conv)
  then show ?thesis
    using False by (simp add: server_format_price_def numeral_text_prefix[OF assms] Let_def py_float_def)
qed

lemma server_format_price_no_digit:
  assumes "\<forall>c\<in>set (cut_qualifier (py_strip (strip_currency s))). \<not> is_digit c"
  shows "server_format_price s = None"
proof -
  let ?s2 = "cut_qualifier (py_strip (strip_currency s))"
  have "c = 46" if "c \<in> set (filter (\<lambda>c. is_digit c \<or> c = 46) (decimal_separator ?s2))" for c
    using that assms set_decimal_separator[of c ?s2] by auto
  then have "py_float (filter (\<lambda>c. is_digit c \<or> c = 46) (decimal_separator ?s2)) = None"
    by (intro py_float_dots) blast
  then show ?thesis by (simp add: server_format_price_def Let_def)
qed

lemma digits_unchanged:
  assumes "\<forall>x\<in>set a. is_digit x"
  shows "filter (\<lambda>c. c \<noteq> 46) a = a" "filter (\<lambda>c. c \<noteq> 44) a = a" "map comma_to_dot a = a"
proof -
  have n: "44 \<notin> set a" "46 \<notin> set a"
    using assms non_digits by blast+
  from n show "filter (\<lambda>c. c \<noteq> 46) a = a" "filter (\<lambda>c. c \<noteq> 44) a = a"
    by (auto simp: filter_id_conv)
  from n show "map comma_to_dot a = a"
    by (intro map_idI) (auto simp: comma_to_dot_def)
qed

lemma server_format_price_thousands:
  assumes a: "\<forall>x\<in>set a. is_digit x" and b: "\<forall>x\<in>set b. is_digit x"
    and c: "\<forall>x\<in>set c. is_digit x" and ne: "a @ b @ c \<noteq> []"
  shows "server_format_price (a @ 46 # b @ 44 # c) = Some (decimal_value (a @ b) c)"
    and "server_format_price (a @ 44 # b @ 46 # c) = Some (decimal_value (a @ b) c)"
proof -
  have sc: "44 \<notin> set c" "46 \<notin> set c"
    using c non_digits by blast+
  have ab: "\<forall>x\<in>set (a @ b). is_digit x" using a b by auto
  have ne': "(a @ b) @ c \<noteq> []" using ne by simp
  have n1: "numeral_text (a @ 46 # b @ 44 # c)" and n2: "numeral_text (a @ 44 # b @ 46 # c)"
    using a b c by (auto simp: numeral_text_def)
  have "decimal_separator ((a @ 46 # b) @ 44 # c) = (a @ b) @ 46 # c"
    unfolding decimal_separator_comma[OF sc]
    by (simp add: digits_unchanged[OF a] digits_unchanged[OF b])
  then show "server_format_price (a @ 46 # b @ 44 # c) = Some (decimal_value (a @ b) c)"
    using py_float_parts[OF ab c ne'] by (simp add: server_format_price_numeral[OF n1])
  have "decimal_separator ((a @ 44 # b) @ 46 # c) = (a @ b) @ 46 # c"
    unfolding decimal_separator_dot[OF sc]
    by (simp add: digits_unchanged[OF a] digits_unchanged[OF b])
  then show "server_format_price (a @ 44 # b @ 46 # c) = Some (decimal_value (a @ b) c)"
    using py_float_parts[OF ab c ne'] by (simp add: server_format_price_numeral[OF n2])
qed

lemma py_float_two_dots:
  assumes "\<forall>c\<in>set ip. is_digit c"
  shows "py_float (ip @ 46 # mid @ 46 # fp) = None"
proof -
  have "takeWhile (\<lambda>c. c \<noteq> 46) (ip @ 46 # mid @ 46 # fp) = ip"
    using assms by (simp add: takeWhile_append2 digit_facts)
  moreover have "dropWhile (\<lambda>c. c \<noteq> 46) (ip @ 46 # mid @ 46 # fp) = 46 # mid @ 46 # fp"
    using assms by (simp add: dropWhile_append2 digit_facts)
  ultimately show ?thesis
    by (simp add: py_float_def non_digits)
qed

lemma server_format_price_two_commas:
  assumes a: "\<forall>x\<in>set a. is_digit x" and b: "\<forall>x\<in>set b. is_digit x"
    and c: "\<forall>x\<in>set c. is_digit x"
  shows "server_format_price (a @ 44 # b @ 44 # c) = None"
proof -
  have sc: "44 \<notin> set c" "46 \<notin> set c"
    using c non_digits by blast+
  have n: "numeral_text (a @ 44 # b @ 44 # c)"
    using a b c by (auto simp: numeral_text_def)
  have "decimal_separator ((a @ 44 # b) @ 44 # c) = a @ 46 # b @ 46 # c"
    unfolding decimal_separator_comma[OF sc]
    by (simp add: digits_unchanged[OF a] digits_unchanged[OF b] comma_to_dot_def)
  then show ?thesis
    using py_float_two_dots[OF a, of b c] by (simp add: server_format_price_numeral[OF n])
qed

text \<open>
  Claim C4, as the code has it, for \<^verbatim>\<open>ServerScraper._format_price\<close>. The five
  reference cases of the specification hold (224, 231 and 237 are the letters with
  accents of the two Portuguese texts). The last separator of a text is its decimal
  separator: when it is a comma, the periods before it are removed and every comma,
  not the last one only, becomes a period; when it is a period, the commas before it
  are removed. So for digits \<open>a\<close>, \<open>b\<close> and \<open>c\<close> both \<open>a.b,c\<close> and \<open>a,b.c\<close>
  have the value of \<open>ab\<close> with the decimals \<open>c\<close>, and \<open>a,b,c\<close> has no value. The
  result is \<open>None\<close>, and never an exception, when no digit is left after the
  currency signs and the qualifier have gone, and so whenever the text has no digit.
\<close>

theorem server_format_price_reference_cases:
  "server_format_price (u ''1.234,56'') = Some 1234.56 \<and>
   server_format_price (u ''1,234.56'') = Some 1234.56 \<and>
   server_format_price (u ''R$ 99,90 '' @ 224 # u '' vista'') = Some 99.90 \<and>
   server_format_price [] = None \<and>
   server_format_price (u ''pre'' @ 231 # u ''o indispon'' @ 237 # u ''vel'') = None \<and>
   (\<forall>pre fr. 44 \<notin> set fr \<and> 46 \<notin> set fr \<longrightarrow>
      decimal_separator (pre @ 44 # fr) =
        map comma_to_dot (filter (\<lambda>c. c \<noteq> 46) pre) @ 46 # fr \<and>
      decimal_separator (pre @ 46 # fr) = filter (\<lambda>c. c \<noteq> 44) pre @ 46 # fr) \<and>
   (\<forall>a b c. (\<forall>x\<in>set (a @ b @ c). is_digit x) \<and> a @ b @ c \<noteq> [] \<longrightarrow>
      server_format_price (a @ 46 # b @ 44 # c) = Some (decimal_value (a @ b) c) \<and>
      server_format_price (a @ 44 # b @ 46 # c) = Some (decimal_value (a @ b) c)) \<and>
   (\<forall>a b c. (\<forall>x\<in>set (a @ b @ c). is_digit x) \<longrightarrow>
      server_format_price (a @ 44 # b @ 44 # c) = None) \<and>
   (\<forall>s. (\<forall>c\<in>set (cut_qualifier (py_strip (strip_currency s))). \<not> is_digit c) \<longrightarrow>
      server_format_price s = None) \<and>
   (\<forall>s. (\<forall>c\<in>set s. \<not> is_digit c) \<longrightarrow> server_format_price s = None)"
proof (intro conjI allI impI)
  show "server_format_price (u ''1.234,56'') = Some 1234.56" by code_simp
  show "server_format_price (u ''1,234.56'') = Some 1234.56" by code_simp
  show "server_format_price (u ''R$ 99,90 '' @ 224 # u '' vista'') = Some 99.90" by code_simp
  show "server_format_price [] = None" by (simp add: server_format_price_def)
  show "server_format_price (u ''pre'' @ 231 # u ''o indispon'' @ 237 # u ''vel'') = None"
    by code_simp
next
  fix pre fr :: ustring
  assume h: "44 \<notin> set fr \<and> 46 \<notin> set fr"
  then show "decimal_separator (pre @ 44 # fr) =
      map comma_to_dot (filter (\<lambda>c. c \<noteq> 46) pre) @ 46 # fr"
    by (intro decimal_separator_comma) simp_all
  from h show "decimal_separator (pre @ 46 # fr) = filter (\<lambda>c. c \<noteq> 44) pre @ 46 # fr"
    by (intro decimal_separator_dot) simp_all
next
  fix a b c :: ustring
  assume h: "(\<forall>x\<in>set (a @ b @ c). is_digit x) \<and> a @ b @ c \<noteq> []"
  then show "server_format_price (a @ 46 # b @ 44 # c) = Some (decimal_value (a @ b) c)"
    by (intro server_format_price_thousands(1)) auto
  from h show "server_format_price (a @ 44 # b @ 46 # c) = Some (decimal_value (a @ b) c)"
    by (intro server_format_price_thousands(2)) auto
next
  fix a b c :: ustring
  assume "\<forall>x\<in>set (a @ b @ c). is_digit x"
  then show "server_format_price (a @ 44 # b @ 44 # c) = None"
    by (intro server_format_price_two_commas) auto
next
  fix s
  assume "\<forall>c\<in>set (cut_qualifier (py_strip (strip_currency s))). \<not> is_digit c"
  then show "server_format_price s = None" by (rule server_format_price_no_digit)
next
  fix s :: ustring
  assume h: "\<forall>c\<in>set s. \<not> is_digit c"
  have "set (cut_qualifier (py_strip (strip_currency s))) \<subseteq> set s"
    using set_cut_qualifier set_py_strip set_strip_currency by blast
  with h show "server_format_price s = None"
    by (intro server_format_price_no_digit) blast
qed

text \<open>
  The theorem at the texts \<^verbatim>\<open>12.345,67\<close>, \<^verbatim>\<open>12,345.67\<close>, \<^verbatim>\<open>1,999,50\<close>,
  \<^verbatim>\<open>sem estoque\<close> and \<^verbatim>\<open>1.999,50\<close>.
\<close>

theorem server_format_price_reference_cases_witness:
  "list_all is_digit (u ''12'' @ u ''345'' @ u ''67'') \<and> u ''12'' @ u ''345'' @ u ''67'' \<noteq> [] \<and>
   server_format_price (u ''12.345,67'') = Some 12345.67 \<and>
   server_format_price (u ''12,345.67'') = Some 12345.67 \<and>
   list_all is_digit (u ''1'' @ u ''999'' @ u ''50'') \<and>
   server_format_price (u ''1,999,50'') = None \<and>
   list_all (\<lambda>c. \<not> is_digit c) (u ''sem estoque'') \<and>
   server_format_price (u ''sem estoque'') = None \<and>
   44 \<notin> set (u ''50'') \<and> 46 \<notin> set (u ''50'') \<and>
   decimal_separator (u ''1.999,50'') = u ''1999.50''"
proof -
  note t = server_format_price_reference_cases
  have d: "\<forall>x\<in>set (u ''12'' @ u ''345'' @ u ''67''). is_digit x"
    "u ''12'' @ u ''345'' @ u ''67'' \<noteq> []"
    by code_simp+
  have v: "decimal_value (u ''12'' @ u ''345'') (u ''67'') = 12345.67"
    by code_simp
  have e1: "u ''12'' @ 46 # u ''345'' @ 44 # u ''67'' = u ''12.345,67''"
    "u ''12'' @ 44 # u ''345'' @ 46 # u ''67'' = u ''12,345.67''"
    by (simp_all add: u_def)
  from t d have "server_format_price (u ''12'' @ 46 # u ''345'' @ 44 # u ''67'')
        = Some (decimal_value (u ''12'' @ u ''345'') (u ''67''))"
    and "server_format_price (u ''12'' @ 44 # u ''345'' @ 46 # u ''67'')
        = Some (decimal_value (u ''12'' @ u ''345'') (u ''67''))"
    by blast+
  then have 1: "server_format_price (u ''12.345,67'') = Some 12345.67"
    "server_format_price (u ''12,345.67'') = Some 12345.67"
    unfolding v e1 by simp_all
  have d2: "\<forall>x\<in>set (u ''1'' @ u ''999'' @ u ''50''). is_digit x"
    by code_simp
  with t have "server_format_price (u ''1'' @ 44 # u ''999'' @ 44 # u ''50'') = None"
    by blast
  then have 4: "server_format_price (u ''1,999,50'') = None"
    by (simp add: u_def)
  have n: "\<forall>c\<in>set (u ''sem estoque''). \<not> is_digit c"
    by code_simp
  with t have 2: "server_format_price (u ''sem estoque'') = None" by blast
  have f: "44 \<notin> set (u ''50'')" "46 \<notin> set (u ''50'')"
    by (simp_all add: u_def)
  with t have "decimal_separator (u ''1.999'' @ 44 # u ''50'') =
      map comma_to_dot (filter (\<lambda>c. c \<noteq> 46) (u ''1.999'')) @ 46 # u ''50''"
    by blast
  then have 3: "decimal_separator (u ''1.999,50'') = u ''1999.50''"
    by (simp add: u_def comma_to_dot_def)
  from d 1 d2 4 n 2 f 3 show ?thesis by (simp add: list_all_iff)
qed

text \<open>
  Claim C4 as it is written fails. By the rule of the specification only the last
  comma becomes a period and the other ones are stripped afterwards, so that
  \<^verbatim>\<open>1,234,56\<close> would be 1234.56 and \<^verbatim>\<open>1.234,5,6\<close> would be 12345.6; the code
  turns every comma into a period, \<^verbatim>\<open>float\<close> refuses the two periods and the result
  is \<open>None\<close>.
\<close>

theorem server_format_price_several_commas_counterexample:
  "spec_normalize (u ''1,234,56'') = Some 1234.56 \<and>
   server_format_price (u ''1,234,56'') = None \<and>
   spec_normalize (u ''1.234,5,6'') = Some 12345.6 \<and>
   server_format_price (u ''1.234,5,6'') = None"
  by code_simp

lemma filter_prefix_steps:
  assumes "\<And>c. P c \<Longrightarrow> is_digit c \<or> c = 44 \<or> c = 46"
  shows "filter P (py_strip (strip_currency s)) = filter P s"
proof -
  have p: "\<not> is_space c \<and> c \<noteq> 82 \<and> c \<noteq> 36 \<and> c \<noteq> 8364 \<and> c \<noteq> 163" if "P c" for c
    using assms[OF that] by (auto simp: digit_facts non_digits)
  have "filter P (py_strip (strip_currency s)) = filter P (strip_currency s)"
    by (rule filter_py_strip) (use p in blast)
  also have "\<dots> = filter P s"
    by (rule filter_strip_currency) (use p in blast)
  finally show ?thesis .
qed

lemma no_sep_iff: "(filter is_sep s = []) = (44 \<notin> set s \<and> 46 \<notin> set s)"
  by (auto simp: filter_empty_conv is_sep_def)

lemma last_sep_cases:
  "filter is_sep s \<noteq> [] \<Longrightarrow> last (filter is_sep s) = 44 \<or> last (filter is_sep s) = 46"
proof -
  assume "filter is_sep s \<noteq> []"
  then have "last (filter is_sep s) \<in> set (filter is_sep s)" by (rule last_in_set)
  then show ?thesis by (simp add: is_sep_def)
qed

lemma clean_comma_decimal:
  "filter (\<lambda>c. is_digit c \<or> c = 46)
     (map (\<lambda>c. if c = 44 then 46 else c) (filter (\<lambda>c. c \<noteq> 46) xs)) =
   map (\<lambda>c. if c = 44 then 46 else c) (filter (\<lambda>c. is_digit c \<or> c = 44) xs)"
  by (induction xs) (auto simp: non_digits)

lemma clean_no_separator:
  "44 \<notin> set xs \<Longrightarrow> 46 \<notin> set xs \<Longrightarrow>
   filter (\<lambda>c. is_digit c \<or> c = 46) (filter (\<lambda>c. c \<noteq> 44) xs) =
   filter (\<lambda>c. is_digit c \<or> c = 44) xs"
  by (induction xs) auto

text \<open>
  Claim C10, as the code has it. \<^verbatim>\<open>ProductScraper.format_price\<close> and
  \<^verbatim>\<open>ServerScraper._format_price\<close> return the same result for every text in which no
  period comes after the last comma (the comma is the decimal separator, or there is
  no period at all) and of which \<^verbatim>\<open>_format_price\<close> cuts off no qualifier.
\<close>

theorem format_price_agrees_when_no_period_after_last_comma:
  assumes nocut: "cut_qualifier (py_strip (strip_currency s)) = py_strip (strip_currency s)"
    and order: "rfind s 46 \<le> rfind s 44"
  shows "format_price s = server_format_price s"
proof (cases "s = []")
  case True
  then show ?thesis by (simp add: format_price_def server_format_price_def)
next
  case False
  let ?s1 = "py_strip (strip_currency s)"
  have sep: "filter is_sep ?s1 = filter is_sep s"
    by (rule filter_prefix_steps) (simp add: is_sep_def)
  have dc: "filter (\<lambda>c. is_digit c \<or> c = 44) ?s1 = filter (\<lambda>c. is_digit c \<or> c = 44) s"
    by (rule filter_prefix_steps) blast
  have nd: "\<not> rfind s 46 > rfind s 44" using order by simp
  have py_nil: "py_float [] = None" by (simp add: py_float_def)
  have srv: "server_format_price s =
      py_float (filter (\<lambda>c. is_digit c \<or> c = 46) (decimal_separator ?s1))"
    using False py_nil by (simp add: server_format_price_def nocut Let_def)
  show ?thesis
  proof (cases "rfind ?s1 44 > rfind ?s1 46")
    case True
    then have "decimal_separator ?s1 =
        map (\<lambda>c. if c = 44 then 46 else c) (filter (\<lambda>c. c \<noteq> 46) ?s1)"
      by (simp add: decimal_separator_def Let_def)
    then have "filter (\<lambda>c. is_digit c \<or> c = 46) (decimal_separator ?s1) =
        map (\<lambda>c. if c = 44 then 46 else c) (filter (\<lambda>c. is_digit c \<or> c = 44) ?s1)"
      by (simp add: clean_comma_decimal)
    then show ?thesis
      unfolding srv using False by (simp add: format_price_def dc)
  next
    case nc: False
    have "filter is_sep s = []"
    proof (rule ccontr)
      assume ne: "filter is_sep s \<noteq> []"
      from last_sep_cases[OF ne] nd nc show False
        unfolding comma_last_iff dot_last_iff sep using ne by blast
    qed
    then have ns: "44 \<notin> set s" "46 \<notin> set s" by (simp_all add: no_sep_iff)
    have ns1: "44 \<notin> set ?s1" "46 \<notin> set ?s1"
      using ns set_py_strip[of "strip_currency s"] set_strip_currency[of s] by blast+
    have "\<not> rfind ?s1 46 > rfind ?s1 44"
      unfolding dot_last_iff sep using \<open>filter is_sep s = []\<close> by simp
    then have "decimal_separator ?s1 = filter (\<lambda>c. c \<noteq> 44) ?s1"
      using nc by (simp add: decimal_separator_def Let_def)
    then have "filter (\<lambda>c. is_digit c \<or> c = 46) (decimal_separator ?s1) =
        filter (\<lambda>c. is_digit c \<or> c = 44) ?s1"
      using clean_no_separator[OF ns1] by (simp only:)
    moreover have "map (\<lambda>c. if c = 44 then 46 else c) (filter (\<lambda>c. is_digit c \<or> c = 44) s)
        = filter (\<lambda>c. is_digit c \<or> c = 44) s"
      using ns by (intro map_idI) auto
    ultimately show ?thesis
      unfolding srv using False by (simp add: format_price_def dc)
  qed
qed

text \<open>The theorem at the text \<^verbatim>\<open>R$ 1.234,56\<close>, on which both return 1234.56.\<close>

theorem format_price_agrees_when_no_period_after_last_comma_witness:
  "cut_qualifier (py_strip (strip_currency (u ''R$ 1.234,56''))) =
     py_strip (strip_currency (u ''R$ 1.234,56'')) \<and>
   rfind (u ''R$ 1.234,56'') 46 \<le> rfind (u ''R$ 1.234,56'') 44 \<and>
   format_price (u ''R$ 1.234,56'') = server_format_price (u ''R$ 1.234,56'') \<and>
   server_format_price (u ''R$ 1.234,56'') = Some 1234.56"
proof -
  have 1: "cut_qualifier (py_strip (strip_currency (u ''R$ 1.234,56''))) =
     py_strip (strip_currency (u ''R$ 1.234,56''))"
    by code_simp
  have 2: "rfind (u ''R$ 1.234,56'') 46 \<le> rfind (u ''R$ 1.234,56'') 44"
    by code_simp
  have 3: "server_format_price (u ''R$ 1.234,56'') = Some 1234.56"
    by code_simp
  from format_price_agrees_when_no_period_after_last_comma[OF 1 2] 1 2 3
  show ?thesis by blast
qed

text \<open>
  Claim C10 as it is written fails: on \<^verbatim>\<open>1,234.56\<close> the function of
  \<^verbatim>\<open>ProductScraper\<close> deletes the period and returns 1.23456, the one of
  \<^verbatim>\<open>ServerScraper\<close> returns 1234.56.
\<close>

theorem format_price_differs_counterexample:
  "format_price (u ''1,234.56'') = Some 1.23456 \<and>
   server_format_price (u ''1,234.56'') = Some 1234.56 \<and>
   format_price (u ''1,234.56'') \<noteq> server_format_price (u ''1,234.56'')"
  by code_simp

section \<open>Properties of the link resolver\<close>

lemma check_params_found:
  assumes "first_values qp ps = pre @ v # post"
    and "\<forall>x\<in>set pre. \<not> external_url w x \<and> \<not> parse_fails w x"
    and "external_url w v"
  shows "check_params w qp ps = Inr (Some v)"
  using assms
proof (induction ps arbitrary: pre)
  case Nil
  then show ?case by (simp add: first_values_def)
next
  case (Cons k ks)
  show ?case
  proof (cases "qp k")
    case None
    then have "first_values qp ks = pre @ v # post"
      using Cons.prems(1) by (simp add: first_values_def)
    from Cons.IH[OF this Cons.prems(2,3)] None show ?thesis by simp
  next
    case (Some vo)
    obtain x others where vo: "vo = (x, others)" by (cases vo)
    have fv: "x # first_values qp ks = pre @ v # post"
      using Cons.prems(1) Some vo by (simp add: first_values_def)
    show ?thesis
    proof (cases pre)
      case Nil
      then have "x = v" using fv by simp
      then show ?thesis
        using Cons.prems(3) Some vo
        by (auto simp: external_url_def split: sum.splits)
    next
      case (Cons y ys)
      then have xy: "x = y" and rest: "first_values qp ks = ys @ v # post"
        using fv by simp_all
      have nx: "\<not> external_url w x \<and> \<not> parse_fails w x"
        using Cons.prems(2) Cons xy by simp
      have "\<forall>x\<in>set ys. \<not> external_url w x \<and> \<not> parse_fails w x"
        using Cons.prems(2) Cons by simp
      from Cons.IH[OF rest this Cons.prems(3)] nx show ?thesis
        using Some vo
        by (auto simp: external_url_def parse_fails_def split: sum.splits)
    qed
  qed
qed

lemma check_params_fails:
  assumes "first_values qp ps = pre @ v # post"
    and "\<forall>x\<in>set pre. \<not> external_url w x \<and> \<not> parse_fails w x"
    and "parse_fails w v"
  shows "\<exists>e. check_params w qp ps = Inl e"
  using assms
proof (induction ps arbitrary: pre)
  case Nil
  then show ?case by (simp add: first_values_def)
next
  case (Cons k ks)
  show ?case
  proof (cases "qp k")
    case None
    then have "first_values qp ks = pre @ v # post"
      using Cons.prems(1) by (simp add: first_values_def)
    from Cons.IH[OF this Cons.prems(2,3)] None show ?thesis by simp
  next
    case (Some vo)
    obtain x others where vo: "vo = (x, others)" by (cases vo)
    have fv: "x # first_values qp ks = pre @ v # post"
      using Cons.prems(1) Some vo by (simp add: first_values_def)
    show ?thesis
    proof (cases pre)
      case Nil
      then have "x = v" using fv by simp
      then show ?thesis
        using Cons.prems(3) Some vo
        by (auto simp: parse_fails_def split: sum.splits)
    next
      case (Cons y ys)
      then have xy: "x = y" and rest: "first_values qp ks = ys @ v # post"
        using fv by simp_all
      have nx: "\<not> external_url w x \<and> \<not> parse_fails w x"
        using Cons.prems(2) Cons xy by simp
      have "\<forall>x\<in>set ys. \<not> external_url w x \<and> \<not> parse_fails w x"
        using Cons.prems(2) Cons by simp
      from Cons.IH[OF rest this Cons.prems(3)] nx show ?thesis
        using Some vo
        by (auto simp: external_url_def parse_fails_def split: sum.splits)
    qed
  qed
qed

lemma check_params_none:
  assumes "\<forall>x\<in>set (first_values qp ps). \<not> external_url w x \<and> \<not> parse_fails w x"
  shows "check_params w qp ps = Inr None"
  using assms
proof (induction ps)
  case Nil
  then show ?case by simp
next
  case (Cons k ks)
  show ?case
  proof (cases "qp k")
    case None
    then show ?thesis using Cons by (simp add: first_values_def)
  next
    case (Some vo)
    obtain x others where vo: "vo = (x, others)" by (cases vo)
    have nx: "\<not> external_url w x \<and> \<not> parse_fails w x"
      and rest: "\<forall>x\<in>set (first_values qp ks). \<not> external_url w x \<and> \<not> parse_fails w x"
      using Cons.prems Some vo by (simp_all add: first_values_def)
    from Cons.IH[OF rest] nx show ?thesis
      using Some vo
      by (auto simp: external_url_def parse_fails_def split: sum.splits)
  qed
qed

lemma follow_redirect_probe:
  assumes "probe_applies p" and "probe_result w l r"
  shows "follow_redirect w l p = Inr (Some r)"
  using assms
  by (auto simp: follow_redirect_def probe_applies_def probe_result_def split: sum.splits)

lemma follow_redirect_no_probe:
  assumes "\<not> probe_applies p \<or> (\<forall>r. \<not> probe_result w l r)"
  shows "follow_redirect w l p \<noteq> Inr (Some r)"
  using assms
  by (auto simp: follow_redirect_def probe_applies_def probe_result_def
      split: sum.splits if_splits)

lemma resolve_original:
  assumes "l \<noteq> []" and "\<And>r. resolve_body w l \<noteq> Inr (Some r)"
  shows "extract_real_product_link w (Some l) = Some l"
  using assms by (auto simp: extract_real_product_link_def split: sum.splits option.splits)

lemma check_params_sound:
  "check_params w qp ps = Inr (Some r) \<Longrightarrow> r \<in> set (first_values qp ps) \<and> external_url w r"
proof (induction ps)
  case Nil
  then show ?case by simp
next
  case (Cons k ks)
  show ?case
  proof (cases "qp k")
    case None
    then show ?thesis using Cons by (simp add: first_values_def)
  next
    case (Some vo)
    obtain x others where vo: "vo = (x, others)" by (cases vo)
    show ?thesis
      using Cons Some vo
      by (auto simp: first_values_def external_url_def split: if_splits sum.splits)
  qed
qed

lemma follow_redirect_sound:
  "follow_redirect w l parsed = Inr (Some r) \<Longrightarrow> probe_result w l r"
  by (auto simp: follow_redirect_def probe_result_def split: if_splits sum.splits)

lemma resolve_cases:
  assumes "l \<noteq> []"
  shows "extract_real_product_link w (Some l) = Some l \<or>
         (\<exists>r. extract_real_product_link w (Some l) = Some r \<and> resolve_body w l = Inr (Some r))"
  using assms by (auto simp: extract_real_product_link_def split: sum.splits option.splits)

lemma resolve_body_sound:
  assumes "resolve_body w l = Inr (Some r)"
  shows "(\<exists>p qp. urlparse w l = Inr p \<and> parse_qs w (query p) = Inr qp \<and>
            r \<in> set (first_values qp possible_params) \<and> external_url w r) \<or>
         probe_result w l r"
proof -
  from assms obtain p qp where p: "urlparse w l = Inr p" and qp: "parse_qs w (query p) = Inr qp"
    by (auto simp: resolve_body_def split: sum.splits)
  show ?thesis
  proof (cases "check_params w qp possible_params")
    case (Inl e)
    then show ?thesis using assms p qp by (simp add: resolve_body_def)
  next
    case (Inr res)
    show ?thesis
    proof (cases res)
      case None
      then have "follow_redirect w l p = Inr (Some r)"
        using assms p qp Inr by (simp add: resolve_body_def)
      then show ?thesis by (auto dest: follow_redirect_sound)
    next
      case (Some x)
      then have "x = r" using assms p qp Inr by (simp add: resolve_body_def)
      then show ?thesis using check_params_sound[of w qp possible_params r] Inr Some p qp
        by auto
    qed
  qed
qed

text \<open>
  Claim C5, as the code has it. An absent or empty link gives \<open>None\<close>. For every other
  link the resolver returns the first value, in the order of \<open>possible_params\<close>, that is
  external, provided that none of the values before it fails to parse; it always
  returns a link, which is the original one, an external value of a parameter or the
  external final address of the redirect probe; and it returns the original link
  whenever neither the parameters nor the probe give an external address, which
  includes every failure of the parser or of the network. The last five parts say
  which of these it is in every case: the original link when the first value that is
  external or fails to parse is one that fails to parse, and when the link or its
  query cannot be parsed; and, when no value is external or fails to parse, the
  result of the redirect probe if the probe applies and has one, and the original
  link otherwise.
\<close>

theorem link_resolver_result:
  "extract_real_product_link w None = None \<and>
   extract_real_product_link w (Some []) = None \<and>
   (\<forall>l p qp pre v post.
      l \<noteq> [] \<and> urlparse w l = Inr p \<and> parse_qs w (query p) = Inr qp \<and>
      first_values qp possible_params = pre @ v # post \<and>
      (\<forall>x\<in>set pre. \<not> external_url w x \<and> \<not> parse_fails w x) \<and> external_url w v \<longrightarrow>
      extract_real_product_link w (Some l) = Some v) \<and>
   (\<forall>l. l \<noteq> [] \<longrightarrow>
      (\<exists>r. extract_real_product_link w (Some l) = Some r \<and>
         (r = l \<or>
          (\<exists>p qp. urlparse w l = Inr p \<and> parse_qs w (query p) = Inr qp \<and>
             r \<in> set (first_values qp possible_params) \<and> external_url w r) \<or>
          probe_result w l r))) \<and>
   (\<forall>l. l \<noteq> [] \<and>
      (\<forall>p qp. urlparse w l = Inr p \<and> parse_qs w (query p) = Inr qp \<longrightarrow>
         (\<forall>x\<in>set (first_values qp possible_params). \<not> external_url w x)) \<and>
      (\<forall>r. \<not> probe_result w l r) \<longrightarrow>
      extract_real_product_link w (Some l) = Some l) \<and>
   (\<forall>l p qp pre v post.
      l \<noteq> [] \<and> urlparse w l = Inr p \<and> parse_qs w (query p) = Inr qp \<and>
      first_values qp possible_params = pre @ v # post \<and>
      (\<forall>x\<in>set pre. \<not> external_url w x \<and> \<not> parse_fails w x) \<and> parse_fails w v \<longrightarrow>
      extract_real_product_link w (Some l) = Some l) \<and>
   (\<forall>l e. l \<noteq> [] \<and> urlparse w l = Inl e \<longrightarrow>
      extract_real_product_link w (Some l) = Some l) \<and>
   (\<forall>l p e. l \<noteq> [] \<and> urlparse w l = Inr p \<and> parse_qs w (query p) = Inl e \<longrightarrow>
      extract_real_product_link w (Some l) = Some l) \<and>
   (\<forall>l p qp r.
      l \<noteq> [] \<and> urlparse w l = Inr p \<and> parse_qs w (query p) = Inr qp \<and>
      (\<forall>x\<in>set (first_values qp possible_params). \<not> external_url w x \<and> \<not> parse_fails w x) \<and>
      probe_applies p \<and> probe_result w l r \<longrightarrow>
      extract_real_product_link w (Some l) = Some r) \<and>
   (\<forall>l p qp.
      l \<noteq> [] \<and> urlparse w l = Inr p \<and> parse_qs w (query p) = Inr qp \<and>
      (\<forall>x\<in>set (first_values qp possible_params). \<not> external_url w x \<and> \<not> parse_fails w x) \<and>
      (\<not> probe_applies p \<or> (\<forall>r. \<not> probe_result w l r)) \<longrightarrow>
      extract_real_product_link w (Some l) = Some l)"
proof (intro conjI allI impI)
  show "extract_real_product_link w None = None"
    by (simp add: extract_real_product_link_def)
  show "extract_real_product_link w (Some []) = None"
    by (simp add: extract_real_product_link_def)
next
  fix l p qp pre v post
  assume h: "l \<noteq> [] \<and> urlparse w l = Inr p \<and> parse_qs w (query p) = Inr qp \<and>
      first_values qp possible_params = pre @ v # post \<and>
      (\<forall>x\<in>set pre. \<not> external_url w x \<and> \<not> parse_fails w x) \<and> external_url w v"
  then have "check_params w qp possible_params = Inr (Some v)"
    by (intro check_params_found[of qp possible_params pre v post]) simp_all
  then show "extract_real_product_link w (Some l) = Some v"
    using h by (simp add: extract_real_product_link_def resolve_body_def)
next
  fix l :: ustring
  assume l: "l \<noteq> []"
  from resolve_cases[OF l, of w] resolve_body_sound[of w l]
  show "\<exists>r. extract_real_product_link w (Some l) = Some r \<and>
         (r = l \<or>
          (\<exists>p qp. urlparse w l = Inr p \<and> parse_qs w (query p) = Inr qp \<and>
             r \<in> set (first_values qp possible_params) \<and> external_url w r) \<or>
          probe_result w l r)"
    by blast
next
  fix l :: ustring
  assume h: "l \<noteq> [] \<and>
      (\<forall>p qp. urlparse w l = Inr p \<and> parse_qs w (query p) = Inr qp \<longrightarrow>
         (\<forall>x\<in>set (first_values qp possible_params). \<not> external_url w x)) \<and>
      (\<forall>r. \<not> probe_result w l r)"
  then have l: "l \<noteq> []" by simp
  from resolve_cases[OF l, of w] resolve_body_sound[of w l] h
  show "extract_real_product_link w (Some l) = Some l"
    by blast
next
  fix l p qp pre v post
  assume h: "l \<noteq> [] \<and> urlparse w l = Inr p \<and> parse_qs w (query p) = Inr qp \<and>
      first_values qp possible_params = pre @ v # post \<and>
      (\<forall>x\<in>set pre. \<not> external_url w x \<and> \<not> parse_fails w x) \<and> parse_fails w v"
  then have "\<exists>e. check_params w qp possible_params = Inl e"
    by (intro check_params_fails[of qp possible_params pre v post]) simp_all
  then show "extract_real_product_link w (Some l) = Some l"
    using h by (auto simp: extract_real_product_link_def resolve_body_def)
next
  fix l e
  assume "l \<noteq> [] \<and> urlparse w l = Inl e"
  then show "extract_real_product_link w (Some l) = Some l"
    by (simp add: extract_real_product_link_def resolve_body_def)
next
  fix l p e
  assume "l \<noteq> [] \<and> urlparse w l = Inr p \<and> parse_qs w (query p) = Inl e"
  then show "extract_real_product_link w (Some l) = Some l"
    by (simp add: extract_real_product_link_def resolve_body_def)
next
  fix l p qp r
  assume h: "l \<noteq> [] \<and> urlparse w l = Inr p \<and> parse_qs w (query p) = Inr qp \<and>
      (\<forall>x\<in>set (first_values qp possible_params). \<not> external_url w x \<and> \<not> parse_fails w x) \<and>
      probe_applies p \<and> probe_result w l r"
  then have c: "check_params w qp possible_params = Inr None"
    by (intro check_params_none) simp
  from h have "follow_redirect w l p = Inr (Some r)"
    by (intro follow_redirect_probe) simp_all
  then show "extract_real_product_link w (Some l) = Some r"
    using h c by (simp add: extract_real_product_link_def resolve_body_def)
next
  fix l p qp
  assume h: "l \<noteq> [] \<and> urlparse w l = Inr p \<and> parse_qs w (query p) = Inr qp \<and>
      (\<forall>x\<in>set (first_values qp possible_params). \<not> external_url w x \<and> \<not> parse_fails w x) \<and>
      (\<not> probe_applies p \<or> (\<forall>r. \<not> probe_result w l r))"
  then have c: "check_params w qp possible_params = Inr None"
    by (intro check_params_none) simp
  have "resolve_body w l \<noteq> Inr (Some r)" for r
    using h c follow_redirect_no_probe[of p w l r] by (simp add: resolve_body_def)
  with h show "extract_real_product_link w (Some l) = Some l"
    by (intro resolve_original) simp_all
qed

lemma table_b:
  "urlparse web_table link_b =
     Inr \<lparr>netloc = u ''www.google.com'', path = u ''/url'',
          query = u ''url=https://www.google.com/shopping/product/1&q=https://shop.example.com/x''\<rparr>"
  "first_values [u ''url'' \<mapsto> (u ''https://www.google.com/shopping/product/1'', []),
               u ''q'' \<mapsto> (u ''https://shop.example.com/x'', [])] possible_params =
     [u ''https://www.google.com/shopping/product/1''] @ u ''https://shop.example.com/x'' # []"
  "\<not> external_url web_table (u ''https://www.google.com/shopping/product/1'')"
  "\<not> parse_fails web_table (u ''https://www.google.com/shopping/product/1'')"
  "external_url web_table (u ''https://shop.example.com/x'')"
  "link_b \<noteq> []"
  by code_simp+

lemma table_b_qs:
  "parse_qs web_table (u ''url=https://www.google.com/shopping/product/1&q=https://shop.example.com/x'') =
     Inr [u ''url'' \<mapsto> (u ''https://www.google.com/shopping/product/1'', []),
          u ''q'' \<mapsto> (u ''https://shop.example.com/x'', [])]"
  by (simp add: web_table_def u_def)

lemma table_a:
  "urlparse web_table link_a =
     Inr \<lparr>netloc = u ''www.google.com'', path = u ''/url'',
          query = u ''adurl=http://[x&url=https://shop.example.com/p''\<rparr>"
  "first_values [u ''adurl'' \<mapsto> (u ''http://[x'', []),
               u ''url'' \<mapsto> (u ''https://shop.example.com/p'', [])] possible_params =
     [] @ u ''http://[x'' # [u ''https://shop.example.com/p'']"
  "parse_fails web_table (u ''http://[x'')"
  "link_a \<noteq> []"
  by code_simp+

lemma table_a_qs:
  "parse_qs web_table (u ''adurl=http://[x&url=https://shop.example.com/p'') =
     Inr [u ''adurl'' \<mapsto> (u ''http://[x'', []),
          u ''url'' \<mapsto> (u ''https://shop.example.com/p'', [])]"
  by (simp add: web_table_def u_def)

text \<open>
  The theorem at \<open>link_b\<close>: the value of \<^verbatim>\<open>url\<close> is a page of the search engine, the
  value of \<^verbatim>\<open>q\<close> is external and is returned; and at \<open>link_a\<close>, whose first value
  fails to parse, so that the link itself is returned.
\<close>

theorem link_resolver_result_witness:
  "link_b \<noteq> [] \<and>
   first_values [u ''url'' \<mapsto> (u ''https://www.google.com/shopping/product/1'', []),
               u ''q'' \<mapsto> (u ''https://shop.example.com/x'', [])] possible_params =
     [u ''https://www.google.com/shopping/product/1''] @ u ''https://shop.example.com/x'' # [] \<and>
   \<not> external_url web_table (u ''https://www.google.com/shopping/product/1'') \<and>
   \<not> parse_fails web_table (u ''https://www.google.com/shopping/product/1'') \<and>
   external_url web_table (u ''https://shop.example.com/x'') \<and>
   extract_real_product_link web_table (Some link_b) = Some (u ''https://shop.example.com/x'') \<and>
   link_a \<noteq> [] \<and> parse_fails web_table (u ''http://[x'') \<and>
   extract_real_product_link web_table (Some link_a) = Some link_a"
proof -
  have pre: "\<forall>x\<in>set [u ''https://www.google.com/shopping/product/1''].
       \<not> external_url web_table x \<and> \<not> parse_fails web_table x"
    using table_b(3,4) by simp
  note t = link_resolver_result[of web_table, THEN conjunct2, THEN conjunct2, THEN conjunct1,
      rule_format, of link_b _ _ "[u ''https://www.google.com/shopping/product/1'']"
        "u ''https://shop.example.com/x''" "[]"]
  have 1: "extract_real_product_link web_table (Some link_b) = Some (u ''https://shop.example.com/x'')"
    by (rule t, intro conjI, rule table_b(6), rule table_b(1), simp only: parsed_url.simps,
        rule table_b_qs, rule table_b(2), rule pre, rule table_b(5))
  have none: "\<forall>x\<in>set []. \<not> external_url web_table x \<and> \<not> parse_fails web_table x"
    by simp
  note f = link_resolver_result[of web_table, THEN conjunct2, THEN conjunct2, THEN conjunct2,
      THEN conjunct2, THEN conjunct2, THEN conjunct1,
      rule_format, of link_a _ _ "[]" "u ''http://[x''" "[u ''https://shop.example.com/p'']"]
  have 2: "extract_real_product_link web_table (Some link_a) = Some link_a"
    by (rule f, intro conjI, rule table_a(4), rule table_a(1), simp only: parsed_url.simps,
        rule table_a_qs, rule table_a(2), rule none, rule table_a(3))
  from table_b table_a(3,4) 1 2 show ?thesis by blast
qed

text \<open>
  Claim C5 as it is written fails at \<open>link_a\<close>: the value of \<^verbatim>\<open>adurl\<close> starts with
  \<^verbatim>\<open>http\<close> and \<^verbatim>\<open>urlparse\<close> raises on it, the handler of the function catches the
  exception, and the original link is returned although the value of \<^verbatim>\<open>url\<close> is the
  first external one.
\<close>

theorem link_resolver_parse_failure_counterexample:
  "first_values [u ''adurl'' \<mapsto> (u ''http://[x'', []),
                 u ''url'' \<mapsto> (u ''https://shop.example.com/p'', [])] possible_params =
     [u ''http://[x'', u ''https://shop.example.com/p''] \<and>
   \<not> external_url web_table (u ''http://[x'') \<and>
   external_url web_table (u ''https://shop.example.com/p'') \<and>
   extract_real_product_link web_table (Some link_a) = Some link_a \<and>
   link_a \<noteq> u ''https://shop.example.com/p''"
  by code_simp

section \<open>Properties of the extraction\<close>

lemma extract_loop_eq:
  "extract_loop w m els ps c = ps @ take (nat (m - c)) (List.map_filter (accepted w) els)"
proof (induction els arbitrary: ps c)
  case Nil
  then show ?case by simp
next
  case (Cons el els)
  show ?case
  proof (cases "c \<ge> m")
    case True
    then show ?thesis by simp
  next
    case False
    then have n: "nat (m - c) = Suc (nat (m - (c + 1)))" by simp
    show ?thesis
      using False
      by (simp add: Cons.IH accepted_def n del: nat_diff_distrib split: sum.splits option.splits)
  qed
qed

lemma first_containers_found:
  assumes "ss = pre @ sel # post" "\<forall>s\<in>set pre. sp s = Inr []" "sp sel = Inr els" "els \<noteq> []"
  shows "first_containers sp ss = Inr (Some els)"
  using assms
proof (induction pre arbitrary: ss)
  case Nil
  then show ?case by (cases els) simp_all
next
  case (Cons a pre)
  then show ?case by simp
qed

lemma first_containers_none:
  "\<forall>s\<in>set ss. sp s = Inr [] \<Longrightarrow> first_containers sp ss = Inr None"
  by (induction ss) simp_all

lemma accepted_sound:
  assumes "accepted w el = Some p"
  shows "nome p \<noteq> name_placeholder \<and> preco p \<noteq> 0 \<and> site p = u ''Google Shopping'' \<and>
         (\<exists>price_text. server_format_price price_text = Some (preco p))"
  using assms
  by (auto simp: accepted_def element_product_def Let_def split: sum.splits option.splits if_splits)

lemma map_filter_append:
  "List.map_filter f (xs @ ys) = List.map_filter f xs @ List.map_filter f ys"
  by (simp add: List.map_filter_def)

text \<open>
  Claim C7. When the selectors before \<open>sel\<close> in \<open>container_selectors\<close> select nothing
  and \<open>sel\<close> selects the containers \<open>els\<close>, the result is made of the products
  accepted from \<open>els\<close> alone, in their order, cut after \<open>max_results\<close> of them; when
  no selector selects anything the result is empty. A product is accepted only if its
  name is not the placeholder and \<^verbatim>\<open>_format_price\<close> gives its price text a value. A
  container on which the extraction raises is passed over like one that is not there,
  and once \<open>max_results\<close> products are accepted the containers that follow do not
  matter.
\<close>

theorem extraction_first_selector_and_acceptance:
  "(\<forall>pre sel post els.
      container_selectors = pre @ sel # post \<and> (\<forall>s\<in>set pre. sp s = Inr []) \<and>
      sp sel = Inr els \<and> els \<noteq> [] \<longrightarrow>
      extract_google_shopping_products w sp m =
        Inr (take (nat m) (List.map_filter (accepted w) els))) \<and>
   ((\<forall>s\<in>set container_selectors. sp s = Inr []) \<longrightarrow>
      extract_google_shopping_products w sp m = Inr []) \<and>
   (\<forall>el p. accepted w el = Some p \<longrightarrow>
      (\<exists>nf pf. extract_field el name_selectors None = Inr nf \<and>
         extract_field el price_selectors None = Inr pf \<and>
         nome p = (case nf of None \<Rightarrow> name_placeholder | Some s \<Rightarrow> s) \<and>
         nome p \<noteq> name_placeholder \<and>
         server_format_price (case pf of None \<Rightarrow> price_placeholder | Some s \<Rightarrow> s)
           = Some (preco p))) \<and>
   (\<forall>xs el ys e. element_product w el = Inl e \<longrightarrow>
      extract_loop w m (xs @ el # ys) [] 0 = extract_loop w m (xs @ ys) [] 0) \<and>
   (\<forall>xs ys. int (length (List.map_filter (accepted w) xs)) \<ge> m \<longrightarrow>
      extract_loop w m (xs @ ys) [] 0 = extract_loop w m xs [] 0)"
proof (intro conjI allI impI)
  fix pre sel post els
  assume "container_selectors = pre @ sel # post \<and> (\<forall>s\<in>set pre. sp s = Inr []) \<and>
      sp sel = Inr els \<and> els \<noteq> []"
  then have "first_containers sp container_selectors = Inr (Some els)"
    by (intro first_containers_found[of _ pre sel post]) simp_all
  then show "extract_google_shopping_products w sp m =
      Inr (take (nat m) (List.map_filter (accepted w) els))"
    by (simp add: extract_google_shopping_products_def extract_loop_eq)
next
  assume "\<forall>s\<in>set container_selectors. sp s = Inr []"
  then have "first_containers sp container_selectors = Inr None"
    by (rule first_containers_none)
  then show "extract_google_shopping_products w sp m = Inr []"
    by (simp add: extract_google_shopping_products_def)
next
  fix el p
  assume "accepted w el = Some p"
  then show "\<exists>nf pf. extract_field el name_selectors None = Inr nf \<and>
         extract_field el price_selectors None = Inr pf \<and>
         nome p = (case nf of None \<Rightarrow> name_placeholder | Some s \<Rightarrow> s) \<and>
         nome p \<noteq> name_placeholder \<and>
         server_format_price (case pf of None \<Rightarrow> price_placeholder | Some s \<Rightarrow> s)
           = Some (preco p)"
    by (auto simp: accepted_def element_product_def Let_def
        split: sum.splits option.splits if_splits)
next
  fix xs el ys e
  assume "element_product w el = Inl e"
  then have "accepted w el = None" by (simp add: accepted_def)
  then show "extract_loop w m (xs @ el # ys) [] 0 = extract_loop w m (xs @ ys) [] 0"
    by (simp add: extract_loop_eq map_filter_append)
next
  fix xs ys
  assume "int (length (List.map_filter (accepted w) xs)) \<ge> m"
  then have "nat m \<le> length (List.map_filter (accepted w) xs)" by simp
  then show "extract_loop w m (xs @ ys) [] 0 = extract_loop w m xs [] 0"
    by (simp add: extract_loop_eq map_filter_append)
qed

lemma soup_ex_facts:
  "container_selectors = [u ''div.sh-dgr__content''] @ u ''div.sh-dlr__list-result'' #
     [u ''div.sh-pr__product-results-grid div.sh-pr__product-result'',
      u ''div[data-docid]'', u ''.i0X6df'', u ''.u30d4'']"
  "\<forall>s\<in>set [u ''div.sh-dgr__content'']. soup_ex s = Inr []"
  "soup_ex (u ''div.sh-dlr__list-result'') = Inr [el_raises, el_ok, el_no_price, el_ok]"
  "[el_raises, el_ok, el_no_price, el_ok] \<noteq> []"
  by (simp_all add: container_selectors_def soup_ex_def u_def)

lemma accepted_ex:
  "accepted web_table el_raises = None"
  "accepted web_table el_ok = Some product_ex"
  "accepted web_table el_no_price = None"
  "element_product web_table el_raises = Inl OtherException"
  by code_simp+

text \<open>
  The theorem at \<open>soup_ex\<close>, whose second selector selects a container that raises, one
  with a product, one without price and one more with a product.
\<close>

theorem extraction_first_selector_and_acceptance_witness:
  "container_selectors = [u ''div.sh-dgr__content''] @ u ''div.sh-dlr__list-result'' #
     [u ''div.sh-pr__product-results-grid div.sh-pr__product-result'',
      u ''div[data-docid]'', u ''.i0X6df'', u ''.u30d4''] \<and>
   soup_ex (u ''div.sh-dgr__content'') = Inr [] \<and>
   soup_ex (u ''div.sh-dlr__list-result'') = Inr [el_raises, el_ok, el_no_price, el_ok] \<and>
   extract_google_shopping_products web_table soup_ex 5 = Inr [product_ex, product_ex] \<and>
   extract_google_shopping_products web_table soup_ex 1 = Inr [product_ex] \<and>
   accepted web_table el_ok = Some product_ex \<and> nome product_ex \<noteq> name_placeholder \<and>
   element_product web_table el_raises = Inl OtherException \<and>
   extract_loop web_table 5 ([] @ el_raises # [el_ok]) [] 0 =
     extract_loop web_table 5 ([] @ [el_ok]) [] 0 \<and>
   int (length (List.map_filter (accepted web_table) [el_ok])) \<ge> 1 \<and>
   extract_loop web_table 1 ([el_ok] @ [el_ok]) [] 0 = extract_loop web_table 1 [el_ok] [] 0"
proof -
  note t = extraction_first_selector_and_acceptance[of soup_ex web_table]
  have mf: "List.map_filter (accepted web_table) [el_raises, el_ok, el_no_price, el_ok]
      = [product_ex, product_ex]"
    by (simp add: accepted_ex)
  have 1: "extract_google_shopping_products web_table soup_ex m =
      Inr (take (nat m) (List.map_filter (accepted web_table) [el_raises, el_ok, el_no_price, el_ok]))"
    for m
    using t[of m, THEN conjunct1, rule_format, OF conjI[OF soup_ex_facts(1)
          conjI[OF soup_ex_facts(2) conjI[OF soup_ex_facts(3) soup_ex_facts(4)]]]] .
  have 5: "extract_google_shopping_products web_table soup_ex 5 = Inr [product_ex, product_ex]"
    unfolding 1 mf by simp
  have 6: "extract_google_shopping_products web_table soup_ex 1 = Inr [product_ex]"
    unfolding 1 mf by simp
  have 7: "nome product_ex \<noteq> name_placeholder"
    using t[of 5] accepted_ex(2) by blast
  have 8: "extract_loop web_table 5 ([] @ el_raises # [el_ok]) [] 0 =
      extract_loop web_table 5 ([] @ [el_ok]) [] 0"
    using t[of 5] accepted_ex(4) by blast
  have 9: "int (length (List.map_filter (accepted web_table) [el_ok])) \<ge> 1"
    by (simp add: accepted_ex)
  have 10: "extract_loop web_table 1 ([el_ok] @ [el_ok]) [] 0 = extract_loop web_table 1 [el_ok] [] 0"
    using t[of 1] 9 by blast
  from soup_ex_facts accepted_ex 5 6 7 8 9 10 show ?thesis by simp
qed

section \<open>Properties of the search with targets and retries\<close>

lemma utf8_Some:
  assumes "0 \<le> c" "c < 1114112" "\<not> (55296 \<le> c \<and> c \<le> 57343)"
  shows "\<exists>bs. utf8 c = Some bs"
  using assms by (simp add: utf8_def)

lemma encode_utf8_total: "encodable s \<Longrightarrow> \<exists>bs. encode_utf8 s = Inr bs"
proof (induction s)
  case Nil
  then show ?case by simp
next
  case (Cons c cs)
  then have "encodable cs" and c: "0 \<le> c" "c < 1114112" "\<not> (55296 \<le> c \<and> c \<le> 57343)"
    by (simp_all add: encodable_def)
  with Cons.IH obtain r where r: "encode_utf8 cs = Inr r" by blast
  from utf8_Some[OF c] obtain bs where "utf8 c = Some bs" by blast
  with r show ?case by simp
qed

lemma quote_plus_total: "encodable s \<Longrightarrow> \<exists>e. quote_plus s = Inr e"
  using encode_utf8_total[of s] by (auto simp: quote_plus_def)

lemma extract_length:
  assumes "extract_google_shopping_products w sp m = Inr ps"
  shows "length ps \<le> nat m"
  using assms
  by (auto simp: extract_google_shopping_products_def extract_loop_eq
      split: sum.splits option.splits)

lemma attempt_body_cases:
  assumes "attempt_body w n url m a = Inr res"
  shows "res = Break \<or> res = Continue \<or> (\<exists>r. res = Return r \<and> length r \<le> nat m)"
proof -
  from assms consider "res = Break" | "res = Continue"
    | sp ps where "extract_google_shopping_products w sp m = Inr ps" "ps \<noteq> []"
        "res = Return (py_slice_to ps m)"
    by (auto simp: attempt_body_def split: sum.splits option.splits if_splits)
  then show ?thesis
  proof cases
    case 3
    from extract_length[OF 3(1)] 3(2) have "0 < m" by (cases "0 < m") auto
    then have "py_slice_to ps m = take (nat m) ps" by (simp add: py_slice_to_def)
    then show ?thesis using 3(3) by simp
  qed simp_all
qed

lemma handler_readable: "readable response \<Longrightarrow> handler e response = Continue"
  by (auto simp: handler_def readable_def split: option.splits sum.splits)

lemma response_after_readable:
  assumes "decodable n" and "readable response"
  shows "readable (response_after n url a response)"
  using assms by (auto simp: response_after_def decodable_def split: sum.splits)

lemma attempt_cases:
  assumes "decodable n" and "readable response"
  shows "attempt w n url m a response = Break \<or> attempt w n url m a response = Continue \<or>
         (\<exists>r. attempt w n url m a response = Return r \<and> length r \<le> nat m)"
proof (cases "attempt_body w n url m a")
  case (Inl e)
  then have "attempt w n url m a response = Continue"
    using handler_readable[OF response_after_readable[OF assms]]
    by (simp add: attempt_def)
  then show ?thesis by simp
next
  case (Inr res)
  then have "attempt w n url m a response = res" by (simp add: attempt_def)
  with attempt_body_cases[OF Inr] show ?thesis by simp
qed

lemma attempts_loop_cases:
  assumes "decodable n" and "readable response"
  shows "(\<exists>r. attempts_loop w n url m as response = Returned r \<and> length r \<le> nat m) \<or>
         (\<exists>response'. attempts_loop w n url m as response = Ended response' \<and> readable response')"
  using assms(2)
proof (induction as arbitrary: response)
  case Nil
  then show ?case by simp
next
  case (Cons a as)
  note ra = response_after_readable[OF assms(1) Cons.prems, of url a]
  from attempt_cases[OF assms(1) Cons.prems, of w url m a]
  consider "attempt w n url m a response = Break" | "attempt w n url m a response = Continue"
    | r where "attempt w n url m a response = Return r" "length r \<le> nat m"
    by blast
  then show ?case
  proof cases
    case 1
    then show ?thesis using ra by simp
  next
    case 2
    then show ?thesis using Cons.IH[OF ra] by simp
  next
    case 3
    then show ?thesis by simp
  qed
qed

lemma urls_loop_returns:
  assumes "decodable n" and "readable response"
  shows "\<exists>r. urls_loop w n m urls response = Inr r \<and> length r \<le> nat m"
  using assms(2)
proof (induction urls arbitrary: response)
  case Nil
  then show ?case by simp
next
  case (Cons url urls)
  from attempts_loop_cases[OF assms(1) Cons.prems, of w url m "[0..<max_retries]"]
  consider r where "attempts_loop w n url m [0..<max_retries] response = Returned r"
      "length r \<le> nat m"
    | response' where "attempts_loop w n url m [0..<max_retries] response = Ended response'"
      "readable response'"
    by blast
  then show ?case
  proof cases
    case 1
    then show ?thesis by simp
  next
    case 2
    then show ?thesis using Cons.IH[OF 2(2)] by simp
  qed
qed

text \<open>
  What the code does keep of the claim: when the query can be encoded and the text of
  every response can be read, the search raises nothing and returns a list of at most
  \<open>max_results\<close> products. On \<open>net_ex\<close> the first target is left at the challenge,
  the second attempt for the second target finds two products and they are returned;
  on \<open>net_down\<close> every attempt fails and the empty list is returned.
\<close>

lemma search_returns_on_decodable_network:
  assumes "encodable q" and "decodable n"
  shows "\<exists>r. search_google_shopping w n q m = Inr r \<and> length r \<le> nat m"
proof -
  from quote_plus_total[OF assms(1)] obtain e where "quote_plus q = Inr e" by blast
  moreover have "readable None" by (simp add: readable_def)
  ultimately show ?thesis
    using urls_loop_returns[OF assms(2), of None w m "urls_to_try e"]
    by (simp add: search_google_shopping_def)
qed

lemma search_examples:
  "search_google_shopping web_table net_ex (u ''tv'') 5 = Inr [product_ex, product_ex]"
  "search_google_shopping web_table net_ex (u ''tv'') 1 = Inr [product_ex]"
  "search_google_shopping web_table net_down (u ''tv'') 5 = Inr []"
  by code_simp+

text \<open>
  Claim C6 does not hold of the code. The handlers of \<^verbatim>\<open>RequestException\<close> and of
  \<^verbatim>\<open>Exception\<close> read \<^verbatim>\<open>response.text\<close> outside every \<^verbatim>\<open>try\<close>: on \<open>net_undefined\<close>
  the reading inside the \<^verbatim>\<open>try\<close> raises \<^verbatim>\<open>UnicodeError\<close>, the handler catches it,
  reads the text again for the file of the error, and the second \<^verbatim>\<open>UnicodeError\<close>
  leaves the search for the query \<^verbatim>\<open>tv\<close>. And \<^verbatim>\<open>quote_plus\<close> is called before the
  first \<^verbatim>\<open>try\<close>: for the text \<^verbatim>\<open>"\ud800"\<close>, a surrogate by itself, it raises
  \<^verbatim>\<open>UnicodeEncodeError\<close>, whatever the network does.
\<close>

theorem search_raises_on_undecodable_response:
  "search_google_shopping web_table net_undefined (u ''tv'') 5 = Inl UnicodeError \<and>
   search_google_shopping web_table net_down [55296] 5 = Inl UnicodeEncodeError"
  by code_simp

section \<open>Properties of the cache and the lock\<close>

lemma search_products_hit:
  assumes "py_strip q \<noteq> []" "search_cache st (cache_key_of sc q) = Some (ct, r)"
    "current_time - ct < 300"
  shows "search_products sc st (Some q) current_time ts =
           (add_event (CacheRead (cache_key_of sc q)) st, Inr (r, None))"
proof -
  have "q \<noteq> []" using assms(1) by (auto simp: py_strip_def)
  then show ?thesis
    using assms by (simp add: search_products_def cache_key_of_def Let_def)
qed

lemma search_products_miss:
  assumes "py_strip q \<noteq> []" "\<not> fresh_entry st (cache_key_of sc q) current_time"
  shows "search_products sc st (Some q) current_time ts =
           locked_search sc (add_event (CacheRead (cache_key_of sc q)) st) (py_strip q)
             (cache_key_of sc q) current_time ts"
proof -
  have "q \<noteq> []" using assms(1) by (auto simp: py_strip_def)
  then show ?thesis
    using assms
    by (auto simp: search_products_def cache_key_of_def fresh_entry_def Let_def
        split: option.splits)
qed

lemma add_event_simps:
  "search_cache (add_event e st) = search_cache st"
  "lock_held (add_event e st) = lock_held st"
  "trace (add_event e st) = trace st @ [e]"
  by (simp_all add: add_event_def)

text \<open>
  Claim C8, as the code has it. A query that is absent, empty or blank raises
  \<^verbatim>\<open>ValueError\<close> and leaves the state as it was: no event is recorded. A query that
  is not blank and has no valid cache entry raises \<^verbatim>\<open>RuntimeError\<close> when the lock is
  held: the cache has been read and the lock refused, nothing else happens and the
  caller does not wait. A query that is not blank and has a valid cache entry gets
  the cached result, whether the lock is held or not.
\<close>

theorem invalid_query_and_busy:
  "((qry = None \<or> (\<exists>q. qry = Some q \<and> py_strip q = [])) \<longrightarrow>
      search_products sc st qry current_time ts = (st, Inl ValueError)) \<and>
   (\<forall>q. qry = Some q \<and> py_strip q \<noteq> [] \<and> lock_held st \<and>
        \<not> fresh_entry st (cache_key_of sc q) current_time \<longrightarrow>
      search_products sc st qry current_time ts =
        (st\<lparr>trace := trace st @ [CacheRead (cache_key_of sc q), LockRefused]\<rparr>,
         Inl RuntimeError)) \<and>
   (\<forall>q ct r. qry = Some q \<and> py_strip q \<noteq> [] \<and>
        search_cache st (cache_key_of sc q) = Some (ct, r) \<and> current_time - ct < 300 \<longrightarrow>
      search_products sc st qry current_time ts =
        (st\<lparr>trace := trace st @ [CacheRead (cache_key_of sc q)]\<rparr>, Inr (r, None)))"
proof (intro conjI allI impI)
  assume "qry = None \<or> (\<exists>q. qry = Some q \<and> py_strip q = [])"
  then show "search_products sc st qry current_time ts = (st, Inl ValueError)"
    by (auto simp: search_products_def)
next
  fix q
  assume h: "qry = Some q \<and> py_strip q \<noteq> [] \<and> lock_held st \<and>
        \<not> fresh_entry st (cache_key_of sc q) current_time"
  then have "search_products sc st qry current_time ts =
      locked_search sc (add_event (CacheRead (cache_key_of sc q)) st) (py_strip q)
        (cache_key_of sc q) current_time ts"
    using search_products_miss[of q st sc current_time ts] by simp
  also have "\<dots> = (st\<lparr>trace := trace st @ [CacheRead (cache_key_of sc q), LockRefused]\<rparr>,
      Inl RuntimeError)"
    using h by (simp add: locked_search_def add_event_def)
  finally show "search_products sc st qry current_time ts =
        (st\<lparr>trace := trace st @ [CacheRead (cache_key_of sc q), LockRefused]\<rparr>,
         Inl RuntimeError)" .
next
  fix q ct r
  assume "qry = Some q \<and> py_strip q \<noteq> [] \<and>
        search_cache st (cache_key_of sc q) = Some (ct, r) \<and> current_time - ct < 300"
  then show "search_products sc st qry current_time ts =
        (st\<lparr>trace := trace st @ [CacheRead (cache_key_of sc q)]\<rparr>, Inr (r, None))"
    using search_products_hit[of q st sc ct r current_time ts] by (simp add: add_event_def)
qed

text \<open>
  The theorem at \<open>state_busy\<close>, where the lock is held and the cache has an entry for
  \<^verbatim>\<open>tv\<close> that is 100 seconds old.
\<close>

theorem invalid_query_and_busy_witness:
  "py_strip (u ''   '') = [] \<and>
   search_products scraper_ex state_busy (Some (u ''   '')) 1100 (u ''t'') = (state_busy, Inl ValueError) \<and>
   py_strip (u '' Radio '') \<noteq> [] \<and> lock_held state_busy \<and>
   \<not> fresh_entry state_busy (cache_key_of scraper_ex (u '' Radio '')) 1100 \<and>
   search_products scraper_ex state_busy (Some (u '' Radio '')) 1100 (u ''t'') =
     (state_busy\<lparr>trace := trace state_busy @ [CacheRead (u ''radio''), LockRefused]\<rparr>,
      Inl RuntimeError) \<and>
   search_cache state_busy (cache_key_of scraper_ex (u '' TV '')) = Some (1000, out_ex) \<and>
   (1100::rat) - 1000 < 300 \<and>
   search_products scraper_ex state_busy (Some (u '' TV '')) 1100 (u ''t'') =
     (state_busy\<lparr>trace := trace state_busy @ [CacheRead (u ''tv'')]\<rparr>, Inr (out_ex, None))"
proof -
  note t = invalid_query_and_busy[of _ scraper_ex state_busy 1100 "u ''t''"]
  have b: "py_strip (u ''   '') = []" by code_simp
  have 1: "search_products scraper_ex state_busy (Some (u ''   '')) 1100 (u ''t'')
      = (state_busy, Inl ValueError)"
    by (rule t[of "Some (u ''   '')", THEN conjunct1, THEN mp]) (simp add: b)
  have n: "py_strip (u '' Radio '') \<noteq> []" "py_strip (u '' TV '') \<noteq> []" by code_simp+
  have k: "cache_key_of scraper_ex (u '' Radio '') = u ''radio''"
    "cache_key_of scraper_ex (u '' TV '') = u ''tv''" by code_simp+
  have l: "lock_held state_busy" by (simp add: state_busy_def)
  have f: "\<not> fresh_entry state_busy (cache_key_of scraper_ex (u '' Radio '')) 1100"
    unfolding k by (simp add: fresh_entry_def state_busy_def u_def)
  have 2: "search_products scraper_ex state_busy (Some (u '' Radio '')) 1100 (u ''t'') =
     (state_busy\<lparr>trace := trace state_busy @ [CacheRead (cache_key_of scraper_ex (u '' Radio '')), LockRefused]\<rparr>,
      Inl RuntimeError)"
    by (rule t[of "Some (u '' Radio '')", THEN conjunct2, THEN conjunct1, rule_format,
          of "u '' Radio ''"]) (simp add: n l f)
  have c: "search_cache state_busy (cache_key_of scraper_ex (u '' TV '')) = Some (1000, out_ex)"
    unfolding k by (simp add: state_busy_def)
  have d: "(1100::rat) - 1000 < 300" by simp
  have 3: "search_products scraper_ex state_busy (Some (u '' TV '')) 1100 (u ''t'') =
     (state_busy\<lparr>trace := trace state_busy @ [CacheRead (cache_key_of scraper_ex (u '' TV ''))]\<rparr>, Inr (out_ex, None))"
    by (rule t[of "Some (u '' TV '')", THEN conjunct2, THEN conjunct2, rule_format,
          of "u '' TV ''" 1000 out_ex]) (simp add: n c)
  from b 1 n l f 2[unfolded k] c d 3[unfolded k] show ?thesis by (intro conjI)
qed

lemma state_busy_facts:
  "py_strip (u '' TV '') \<noteq> []"
  "search_cache state_busy (cache_key_of scraper_ex (u '' TV '')) = Some (1000, out_ex)"
  "lock_held state_busy"
proof -
  show "py_strip (u '' TV '') \<noteq> []" by code_simp
  have "cache_key_of scraper_ex (u '' TV '') = u ''tv''" by code_simp
  then show "search_cache state_busy (cache_key_of scraper_ex (u '' TV '')) = Some (1000, out_ex)"
    by (simp add: state_busy_def)
  show "lock_held state_busy" by (simp add: state_busy_def)
qed

text \<open>
  Claim C8 as it is written fails: while the lock is held, the query \<^verbatim>\<open>TV\<close> gets its
  cached result and a blank query gets \<^verbatim>\<open>ValueError\<close>; neither call fails with
  \<^verbatim>\<open>RuntimeError\<close>.
\<close>

theorem busy_with_fresh_cache_counterexample:
  "lock_held state_busy \<and>
   snd (search_products scraper_ex state_busy (Some (u '' TV '')) 1100 (u ''t'')) = Inr (out_ex, None) \<and>
   snd (search_products scraper_ex state_busy (Some (u '' TV '')) 1100 (u ''t'')) \<noteq> Inl RuntimeError \<and>
   snd (search_products scraper_ex state_busy (Some (u ''   '')) 1100 (u ''t'')) = Inl ValueError \<and>
   snd (search_products scraper_ex state_busy (Some (u ''   '')) 1100 (u ''t'')) \<noteq> Inl RuntimeError"
proof -
  have "search_products scraper_ex state_busy (Some (u '' TV '')) 1100 (u ''t'') =
      (add_event (CacheRead (cache_key_of scraper_ex (u '' TV ''))) state_busy, Inr (out_ex, None))"
    by (rule search_products_hit[OF state_busy_facts(1,2)]) simp
  then have 1: "snd (search_products scraper_ex state_busy (Some (u '' TV '')) 1100 (u ''t''))
      = Inr (out_ex, None)"
    by simp
  have "py_strip (u ''   '') = []" by code_simp
  then have 2: "snd (search_products scraper_ex state_busy (Some (u ''   '')) 1100 (u ''t''))
      = Inl ValueError"
    by (simp add: search_products_def)
  from 1 2 state_busy_facts(3) show ?thesis by simp
qed

lemma run_search_success:
  assumes "run_search sc st q k t ts = (st', Inr (r, p))"
  shows "search_cache st' k = Some (t, r) \<and> p \<noteq> None"
  using assms
  by (auto simp: run_search_def Let_def add_event_def split: sum.splits)

lemma locked_search_success:
  assumes "locked_search sc st q k t ts = (st', Inr (r, p))"
  shows "search_cache st' k = Some (t, r) \<and> p \<noteq> None"
proof -
  from assms have nl: "\<not> lock_held st"
    by (auto simp: locked_search_def split: if_splits)
  obtain s2 res where rs: "run_search sc (add_event LockAcquired (st\<lparr>lock_held := True\<rparr>)) q k t ts
      = (s2, res)"
    by (cases "run_search sc (add_event LockAcquired (st\<lparr>lock_held := True\<rparr>)) q k t ts")
  with assms nl have "st' = add_event LockReleased (s2\<lparr>lock_held := False\<rparr>)" "res = Inr (r, p)"
    by (simp_all add: locked_search_def)
  with run_search_success[of sc _ q k t ts s2 r p] rs show ?thesis
    by (simp add: add_event_def)
qed

lemma search_products_success:
  assumes "search_products sc st (Some q) t1 ts1 = (st1, Inr (r, p))"
  shows "\<exists>ct. search_cache st1 (cache_key_of sc q) = Some (ct, r) \<and>
           (p \<noteq> None \<longrightarrow> ct = t1) \<and> t1 - ct < 300"
proof -
  have ne: "py_strip q \<noteq> []"
    using assms by (auto simp: search_products_def split: if_splits)
  show ?thesis
  proof (cases "fresh_entry st (cache_key_of sc q) t1")
    case True
    then obtain ct cr where c: "search_cache st (cache_key_of sc q) = Some (ct, cr)"
      and f: "t1 - ct < 300"
      by (auto simp: fresh_entry_def split: option.splits)
    from search_products_hit[OF ne c f, of ts1] assms
    have "st1 = add_event (CacheRead (cache_key_of sc q)) st" "r = cr" "p = None"
      by simp_all
    then show ?thesis using c f by (auto simp: add_event_def)
  next
    case False
    from search_products_miss[OF ne False, of ts1] assms
    have "locked_search sc (add_event (CacheRead (cache_key_of sc q)) st) (py_strip q)
        (cache_key_of sc q) t1 ts1 = (st1, Inr (r, p))"
      by simp
    from locked_search_success[OF this] show ?thesis by simp
  qed
qed

text \<open>
  Claim C9. After a successful search for \<open>q\<close> the cache has the result returned
  under the key of \<open>q\<close>, which is the lower case of the trimmed query, with the time
  of the search that computed it (the time \<open>t1\<close> of this search when it ran the
  scraper, which is when a path is returned). Every search for a query with the same
  key that is not blank and comes less than 300 seconds after that time returns this
  very result, and all it does is to read the cache: the scraper is not called, the
  lock is not taken and the cache is not written.
\<close>

theorem repeated_search_served_from_cache:
  assumes "search_products sc st (Some q) t1 ts1 = (st1, Inr (r, p))"
  shows "\<exists>ct. search_cache st1 (cache_key_of sc q) = Some (ct, r) \<and>
           (p \<noteq> None \<longrightarrow> ct = t1) \<and> t1 - ct < 300 \<and>
           (\<forall>q' t2 ts2. py_strip q' \<noteq> [] \<and> cache_key_of sc q' = cache_key_of sc q \<and>
                t2 - ct < 300 \<longrightarrow>
              search_products sc st1 (Some q') t2 ts2 =
                (st1\<lparr>trace := trace st1 @ [CacheRead (cache_key_of sc q)]\<rparr>, Inr (r, None)))"
proof -
  from search_products_success[OF assms] obtain ct where
    c: "search_cache st1 (cache_key_of sc q) = Some (ct, r)"
    and t: "p \<noteq> None \<longrightarrow> ct = t1" "t1 - ct < 300"
    by blast
  have "search_products sc st1 (Some q') t2 ts2 =
      (st1\<lparr>trace := trace st1 @ [CacheRead (cache_key_of sc q)]\<rparr>, Inr (r, None))"
    if "py_strip q' \<noteq> [] \<and> cache_key_of sc q' = cache_key_of sc q \<and> t2 - ct < 300"
    for q' t2 ts2
    using search_products_hit[of q' st1 sc ct r t2 ts2] that c
    by (simp add: add_event_def)
  with c t show ?thesis by blast
qed

lemma first_search_ex:
  "\<exists>st1 r. search_products scraper_ex state_idle (Some (u '' TV '')) 1000 (u ''2024-01-01 10:00:00'')
      = (st1, Inr (r, Some (u ''results/tv_20240101_100000.json''))) \<and>
     trace st1 = [CacheRead (u ''tv''), LockAcquired, Fetch (u ''TV''), Save,
                  CacheWrite (u ''tv''), LockReleased]"
proof -
  have "(case search_products scraper_ex state_idle (Some (u '' TV '')) 1000 (u ''2024-01-01 10:00:00'') of
      (st1, res) \<Rightarrow> (trace st1, map_sum id snd res)) =
    ([CacheRead (u ''tv''), LockAcquired, Fetch (u ''TV''), Save, CacheWrite (u ''tv''), LockReleased],
     Inr (Some (u ''results/tv_20240101_100000.json'')))"
    by code_simp
  then show ?thesis
    by (auto split: prod.splits sum.splits simp: map_sum_def)
qed

text \<open>
  The theorem for a search for \<^verbatim>\<open> TV \<close> at time 1000 in \<open>state_idle\<close> and a search
  for \<^verbatim>\<open>tv\<close> at time 1200.
\<close>

theorem repeated_search_served_from_cache_witness:
  "\<exists>st1 r. search_products scraper_ex state_idle (Some (u '' TV '')) 1000 (u ''2024-01-01 10:00:00'')
      = (st1, Inr (r, Some (u ''results/tv_20240101_100000.json''))) \<and>
     py_strip (u ''tv'') \<noteq> [] \<and>
     cache_key_of scraper_ex (u ''tv'') = cache_key_of scraper_ex (u '' TV '') \<and>
     (1200::rat) - 1000 < 300 \<and>
     search_products scraper_ex st1 (Some (u ''tv'')) 1200 (u ''2024-01-01 10:03:20'') =
       (st1\<lparr>trace := trace st1 @ [CacheRead (cache_key_of scraper_ex (u '' TV ''))]\<rparr>, Inr (r, None))"
proof -
  from first_search_ex obtain st1 r where
    f: "search_products scraper_ex state_idle (Some (u '' TV '')) 1000 (u ''2024-01-01 10:00:00'')
      = (st1, Inr (r, Some (u ''results/tv_20240101_100000.json'')))"
    by blast
  have n: "py_strip (u ''tv'') \<noteq> []" by code_simp
  have k: "cache_key_of scraper_ex (u ''tv'') = cache_key_of scraper_ex (u '' TV '')" by code_simp
  have d: "(1200::rat) - 1000 < 300" by simp
  from repeated_search_served_from_cache[OF f] obtain ct where
    ct: "ct = 1000"
    and a: "\<forall>q' t2 ts2. py_strip q' \<noteq> [] \<and>
          cache_key_of scraper_ex q' = cache_key_of scraper_ex (u '' TV '') \<and> t2 - ct < 300 \<longrightarrow>
        search_products scraper_ex st1 (Some q') t2 ts2 =
          (st1\<lparr>trace := trace st1 @ [CacheRead (cache_key_of scraper_ex (u '' TV ''))]\<rparr>, Inr (r, None))"
    by auto
  from a[rule_format, of "u ''tv''" 1200 "u ''2024-01-01 10:03:20''"] n k d ct
  have "search_products scraper_ex st1 (Some (u ''tv'')) 1200 (u ''2024-01-01 10:03:20'') =
       (st1\<lparr>trace := trace st1 @ [CacheRead (cache_key_of scraper_ex (u '' TV ''))]\<rparr>, Inr (r, None))"
    by simp
  with f n k d show ?thesis by blast
qed

end
